theory Spec2Isabelle
  imports Complex_Main
begin

section \<open>The icon generator \<^verbatim>\<open>generate_icons.py\<close>\<close>

text \<open>
  The script creates the directory \<^verbatim>\<open>public\<close> when no such path exists and then,
  for each of the sizes 192 and 512, builds a square blue canvas, resolves a font
  (\<^verbatim>\<open>arial.ttf\<close> at \<^verbatim>\<open>int(size * 0.4)\<close> points, the built-in font when that fails),
  measures the letter B, draws it at the centring position, saves the canvas as a PNG
  file and prints a progress line; a final line is printed after the loop.

  The imaging library and the operating system are not part of the script. They enter
  the model as an environment of outcomes (which font requests succeed, what a font
  measures, which directory creations and file writes succeed); the script itself is
  translated statement by statement.
\<close>

subsection \<open>Python numbers and strings\<close>

text \<open>
  \<^verbatim>\<open>int(size * 0.4)\<close> multiplies in IEEE binary64: \<^verbatim>\<open>size\<close> is converted to a
  double, multiplied by the double nearest to 0.4, the product is rounded to 53
  significant bits (ties to even), and \<^verbatim>\<open>int\<close> truncates towards zero. A finite
  double of magnitude \<open>m * 2 ^ e\<close> is the pair \<open>(m, e)\<close>; the exponent range is not
  modelled (no overflow, no subnormals: sizes below \<open>2 ^ 1000\<close>).
\<close>

fun bit_length :: "nat \<Rightarrow> nat" where
  "bit_length n = (if n = 0 then 0 else Suc (bit_length (n div 2)))"

declare bit_length.simps [simp del]

definition round_half_even :: "nat \<Rightarrow> nat \<Rightarrow> nat" where
  "round_half_even p k =
     (let q = p div 2 ^ k; r = p mod 2 ^ k
      in if 2 ^ k < 2 * r \<or> (2 * r = 2 ^ k \<and> odd q) then q + 1 else q)"

definition round53 :: "nat \<Rightarrow> int \<Rightarrow> nat \<times> int" where
  "round53 p e = (let k = bit_length p - 53 in (round_half_even p k, e + int k))"

definition float_of_nat :: "nat \<Rightarrow> nat \<times> int" where
  "float_of_nat n = round53 n 0"

definition float_mul :: "nat \<times> int \<Rightarrow> nat \<times> int \<Rightarrow> nat \<times> int" where
  "float_mul a b = round53 (fst a * fst b) (snd a + snd b)"

definition float_0_4 :: "nat \<times> int" where
  "float_0_4 = (3602879701896397, - 53)"

definition trunc_float :: "nat \<times> int \<Rightarrow> int" where
  "trunc_float a =
     (if 0 \<le> snd a then int (fst a) * 2 ^ nat (snd a)
      else int (fst a) div 2 ^ nat (- snd a))"

definition font_size :: "int \<Rightarrow> int" where
  "font_size sz = sgn sz * trunc_float (float_mul (float_of_nat (nat \<bar>sz\<bar>)) float_0_4)"

text \<open>\<^verbatim>\<open>str\<close> of an integer, as the f-strings format \<^verbatim>\<open>{size}\<close>.\<close>

definition digit_char :: "nat \<Rightarrow> char" where
  "digit_char d = ''0123456789'' ! d"

fun digits10 :: "nat \<Rightarrow> string" where
  "digits10 n = (if n < 10 then [digit_char n] else digits10 (n div 10) @ [digit_char (n mod 10)])"

declare digits10.simps [simp del]

definition str_int :: "int \<Rightarrow> string" where
  "str_int i = (if i < 0 then CHR ''-'' # digits10 (nat (- i)) else digits10 (nat i))"

subsection \<open>Fonts, images and the file system\<close>

text \<open>
  A font object is either the scalable font \<^verbatim>\<open>ImageFont.truetype(name, size)\<close> returned
  or the built-in one of \<^verbatim>\<open>ImageFont.load_default()\<close>.
\<close>

datatype font = FreeTypeFont string int | DefaultFont

type_synonym bbox = "int \<times> int \<times> int \<times> int"

text \<open>
  An image keeps its mode, its size, its fill colour and the text drawn on it, in order;
  rasterising and PNG encoding are functions of these and are not unfolded further.
\<close>

datatype text_op = Text "int \<times> int" string string font

record image =
  mode :: string
  img_size :: "int \<times> int"
  color :: string
  drawn :: "text_op list"

text \<open>
  A path names a directory, a PNG file holding an encoded image, or some other regular
  file. Symbolic links and special files are not modelled.
\<close>

datatype entry = Directory | PngFile image | OtherFile string

datatype error = FileExistsError | FileNotFoundError | NotADirectoryError
  | IsADirectoryError | PermissionError | OSError

datatype call = PathExists string | Makedirs string | Truetype string int | LoadDefault
  | Save string

text \<open>
  What the script does not decide: whether a font request succeeds, what a font
  measures for a text drawn at the origin, whether the operating system lets a directory
  be created or a file be written, and what a failed write leaves at its path.
\<close>

record env =
  truetype_ok :: "string \<Rightarrow> int \<Rightarrow> bool"
  getbbox :: "font \<Rightarrow> string \<Rightarrow> bbox"
  makedirs_ok :: "string \<Rightarrow> bool"
  write_ok :: "string \<Rightarrow> bool"
  write_residue :: "string \<Rightarrow> entry option \<Rightarrow> entry option"

text \<open>
  The state a run acts on: the file system, the lines printed so far, and the library
  and system calls made so far (kept to speak about how often and in which order they
  happen).
\<close>

record state =
  fs :: "string \<rightharpoonup> entry"
  stdout :: "string list"
  calls :: "call list"

definition log_call :: "call \<Rightarrow> state \<Rightarrow> state" where
  "log_call c st = st\<lparr>calls := calls st @ [c]\<rparr>"

definition print :: "string \<Rightarrow> state \<Rightarrow> state" where
  "print line st = st\<lparr>stdout := stdout st @ [line]\<rparr>"

subsection \<open>The library and system calls the script makes\<close>

definition path_exists :: "string \<Rightarrow> state \<Rightarrow> bool \<times> state" where
  "path_exists p st = (fs st p \<noteq> None, log_call (PathExists p) st)"

text \<open>\<^verbatim>\<open>os.makedirs(p)\<close> for a single path segment, \<^verbatim>\<open>exist_ok\<close> left at False.\<close>

definition makedirs :: "env \<Rightarrow> string \<Rightarrow> state \<Rightarrow> (error + unit) \<times> state" where
  "makedirs env p st =
     (let st1 = log_call (Makedirs p) st
      in if fs st1 p \<noteq> None then (Inl FileExistsError, st1)
         else if \<not> makedirs_ok env p then (Inl PermissionError, st1)
         else (Inr (), st1\<lparr>fs := (fs st1)(p \<mapsto> Directory)\<rparr>))"

definition Image_new :: "string \<Rightarrow> int \<times> int \<Rightarrow> string \<Rightarrow> image" where
  "Image_new m wh c = \<lparr>mode = m, img_size = wh, color = c, drawn = []\<rparr>"

text \<open>
  \<^verbatim>\<open>draw.textbbox(xy, text, font=font)\<close>: the box the text's ink occupies when the text
  is drawn at \<open>xy\<close>, which is the font's box for the origin moved by \<open>xy\<close>.
\<close>

definition textbbox :: "env \<Rightarrow> int \<times> int \<Rightarrow> string \<Rightarrow> font \<Rightarrow> bbox" where
  "textbbox env xy text font =
     (case getbbox env font text of
        (l, t, r, b) \<Rightarrow> (fst xy + l, snd xy + t, fst xy + r, snd xy + b))"

definition draw_text :: "image \<Rightarrow> int \<times> int \<Rightarrow> string \<Rightarrow> string \<Rightarrow> font \<Rightarrow> image" where
  "draw_text img xy text fill font = img\<lparr>drawn := drawn img @ [Text xy text fill font]\<rparr>"

text \<open>\<^verbatim>\<open>os.path.dirname\<close>: everything before the last slash.\<close>

definition dirname :: "string \<Rightarrow> string" where
  "dirname p = rev (drop 1 (dropWhile (\<lambda>c. c \<noteq> CHR ''/'') (rev p)))"

text \<open>
  \<^verbatim>\<open>img.save(p)\<close> opens \<open>p\<close> for writing and encodes the image into it. Opening
  fails when the parent is missing or is no directory, or when \<open>p\<close> is a directory;
  the write itself fails when the system refuses it, and then leaves at \<open>p\<close> whatever
  the system leaves there. No other path is touched.
\<close>

definition save :: "env \<Rightarrow> image \<Rightarrow> string \<Rightarrow> state \<Rightarrow> (error + unit) \<times> state" where
  "save env img p st =
     (let st1 = log_call (Save p) st
      in case fs st1 (dirname p) of
           None \<Rightarrow> (Inl FileNotFoundError, st1)
         | Some Directory \<Rightarrow>
             (if fs st1 p = Some Directory then (Inl IsADirectoryError, st1)
              else if \<not> write_ok env p
                then (Inl OSError, st1\<lparr>fs := (fs st1)(p := write_residue env p (fs st1 p))\<rparr>)
              else (Inr (), st1\<lparr>fs := (fs st1)(p \<mapsto> PngFile img)\<rparr>))
         | Some _ \<Rightarrow> (Inl NotADirectoryError, st1))"

subsection \<open>The script\<close>

text \<open>
  \<^verbatim>\<open>if not os.path.exists('public'): os.makedirs('public')\<close>
\<close>

definition ensure_public :: "env \<Rightarrow> state \<Rightarrow> (error + unit) \<times> state" where
  "ensure_public env st =
     (case path_exists ''public'' st of
        (True, st1) \<Rightarrow> (Inr (), st1)
      | (False, st1) \<Rightarrow> makedirs env ''public'' st1)"

definition sizes :: "int list" where
  "sizes = [192, 512]"

text \<open>
  The \<^verbatim>\<open>try\<close> block: request \<^verbatim>\<open>arial.ttf\<close> at \<^verbatim>\<open>int(size * 0.4)\<close> points; the bare
  \<^verbatim>\<open>except\<close> answers any failure with the built-in font.
\<close>

definition load_font :: "env \<Rightarrow> int \<Rightarrow> state \<Rightarrow> font \<times> state" where
  "load_font env sz st =
     (let st1 = log_call (Truetype ''arial.ttf'' (font_size sz)) st
      in if truetype_ok env ''arial.ttf'' (font_size sz)
         then (FreeTypeFont ''arial.ttf'' (font_size sz), st1)
         else (DefaultFont, log_call LoadDefault st1))"

definition text_width :: "bbox \<Rightarrow> int" where
  "text_width bbox = (case bbox of (l, t, r, b) \<Rightarrow> r - l)"

definition text_height :: "bbox \<Rightarrow> int" where
  "text_height bbox = (case bbox of (l, t, r, b) \<Rightarrow> b - t)"

definition position :: "int \<Rightarrow> bbox \<Rightarrow> int \<times> int" where
  "position sz bbox = ((sz - text_width bbox) div 2, (sz - text_height bbox) div 2)"

definition icon_name :: "int \<Rightarrow> string" where
  "icon_name sz = ''icon-'' @ str_int sz @ ''x'' @ str_int sz @ ''.png''"

definition icon_path :: "int \<Rightarrow> string" where
  "icon_path sz = ''public/'' @ icon_name sz"

text \<open>The canvas of one iteration, as it is when it is saved.\<close>

definition icon_image :: "env \<Rightarrow> font \<Rightarrow> int \<Rightarrow> image" where
  "icon_image env font sz =
     (let img = Image_new ''RGB'' (sz, sz) ''#3b82f6'';
          text = ''B'';
          bbox = textbbox env (0, 0) text font
      in draw_text img (position sz bbox) text ''white'' font)"

text \<open>One iteration of the loop body.\<close>

definition process_size :: "env \<Rightarrow> int \<Rightarrow> state \<Rightarrow> (error + unit) \<times> state" where
  "process_size env sz st =
     (case load_font env sz st of
        (font, st1) \<Rightarrow>
          (case save env (icon_image env font sz) (icon_path sz) st1 of
             (Inl e, st2) \<Rightarrow> (Inl e, st2)
           | (Inr u, st2) \<Rightarrow> (Inr (), print (''Created '' @ icon_name sz) st2)))"

text \<open>\<^verbatim>\<open>for size in sizes\<close>: an exception leaves the loop at once.\<close>

fun for_sizes :: "env \<Rightarrow> int list \<Rightarrow> state \<Rightarrow> (error + unit) \<times> state" where
  "for_sizes env [] st = (Inr (), st)"
| "for_sizes env (sz # rest) st =
     (case process_size env sz st of
        (Inl e, st1) \<Rightarrow> (Inl e, st1)
      | (Inr u, st1) \<Rightarrow> for_sizes env rest st1)"

text \<open>The whole script, over any list of sizes, and with the list it has.\<close>

definition generate_icons :: "env \<Rightarrow> int list \<Rightarrow> state \<Rightarrow> (error + unit) \<times> state" where
  "generate_icons env szs st =
     (case ensure_public env st of
        (Inl e, st1) \<Rightarrow> (Inl e, st1)
      | (Inr u, st1) \<Rightarrow>
          (case for_sizes env szs st1 of
             (Inl e, st2) \<Rightarrow> (Inl e, st2)
           | (Inr u, st2) \<Rightarrow> (Inr (), print ''All icons generated!'' st2)))"

definition main :: "env \<Rightarrow> state \<Rightarrow> (error + unit) \<times> state" where
  "main env st = generate_icons env sizes st"

subsection \<open>Notions derived from the script, used to state its properties\<close>

text \<open>The font an iteration ends up with, and the font calls it makes.\<close>

definition resolved_font :: "env \<Rightarrow> int \<Rightarrow> font" where
  "resolved_font env sz =
     (if truetype_ok env ''arial.ttf'' (font_size sz)
      then FreeTypeFont ''arial.ttf'' (font_size sz) else DefaultFont)"

definition font_calls :: "env \<Rightarrow> int \<Rightarrow> call list" where
  "font_calls env sz =
     (if truetype_ok env ''arial.ttf'' (font_size sz)
      then [Truetype ''arial.ttf'' (font_size sz)]
      else [Truetype ''arial.ttf'' (font_size sz), LoadDefault])"

definition size_calls :: "env \<Rightarrow> int \<Rightarrow> call list" where
  "size_calls env sz = font_calls env sz @ [Save (icon_path sz)]"

definition the_icon :: "env \<Rightarrow> int \<Rightarrow> image" where
  "the_icon env sz = icon_image env (resolved_font env sz) sz"

definition created_line :: "int \<Rightarrow> string" where
  "created_line sz = ''Created '' @ icon_name sz"

text \<open>The condition under which \<open>save\<close> writes its file.\<close>

definition save_succeeds :: "env \<Rightarrow> (string \<rightharpoonup> entry) \<Rightarrow> string \<Rightarrow> bool" where
  "save_succeeds env fsys p \<longleftrightarrow>
     fsys (dirname p) = Some Directory \<and> fsys p \<noteq> Some Directory \<and> write_ok env p"

text \<open>The paths handed to \<open>save\<close>, the existence checks and the directory creations in a call log.\<close>

fun saved_paths :: "call list \<Rightarrow> string list" where
  "saved_paths [] = []"
| "saved_paths (Save p # cs) = p # saved_paths cs"
| "saved_paths (c # cs) = saved_paths cs"

fun exists_checks :: "call list \<Rightarrow> string list" where
  "exists_checks [] = []"
| "exists_checks (PathExists p # cs) = p # exists_checks cs"
| "exists_checks (c # cs) = exists_checks cs"

fun dir_creations :: "call list \<Rightarrow> string list" where
  "dir_creations [] = []"
| "dir_creations (Makedirs p # cs) = p # dir_creations cs"
| "dir_creations (c # cs) = dir_creations cs"

fun font_requests :: "call list \<Rightarrow> (string \<times> int) list" where
  "font_requests [] = []"
| "font_requests (Truetype n pt # cs) = (n, pt) # font_requests cs"
| "font_requests (c # cs) = font_requests cs"

text \<open>What a run added to the call log and to the output.\<close>

definition new_calls :: "state \<Rightarrow> state \<Rightarrow> call list" where
  "new_calls st st' = drop (length (calls st)) (calls st')"

definition new_output :: "state \<Rightarrow> state \<Rightarrow> string list" where
  "new_output st st' = drop (length (stdout st)) (stdout st')"

text \<open>The calls of the directory step, which depend on whether the path exists.\<close>

definition dir_calls :: "state \<Rightarrow> call list" where
  "dir_calls st =
     (if fs st ''public'' = None then [PathExists ''public'', Makedirs ''public'']
      else [PathExists ''public''])"

text \<open>
  The box an image's text operation inks on the canvas, and the box of the glyph's
  width and height placed at the draw origin (the box the origin is computed to centre).
\<close>

fun ink_box :: "env \<Rightarrow> text_op \<Rightarrow> bbox" where
  "ink_box env (Text xy text fill font) = textbbox env xy text font"

definition centring_box :: "int \<Rightarrow> bbox \<Rightarrow> bbox" where
  "centring_box sz bbox =
     (case position sz bbox of
        (x, y) \<Rightarrow> (x, y, x + text_width bbox, y + text_height bbox))"

definition translate :: "int \<times> int \<Rightarrow> bbox \<Rightarrow> bbox" where
  "translate d box = (case box of (l, t, r, b) \<Rightarrow> (l + fst d, t + snd d, r + fst d, b + snd d))"

text \<open>
  The file system the directory step hands to the loop when it does not fail: the one it
  found, with \<^verbatim>\<open>public\<close> entered as a directory when the path was absent.
\<close>

definition fs_after_dir :: "state \<Rightarrow> (string \<rightharpoonup> entry)" where
  "fs_after_dir st =
     (if fs st ''public'' = None then (fs st)(''public'' \<mapsto> Directory) else fs st)"

subsection \<open>Sample environments and states\<close>

text \<open>
  Concrete inputs on which the properties below are exercised: a font metric, an
  environment in which \<^verbatim>\<open>arial.ttf\<close> may or may not be available and in which a given
  set of paths can be written, and two initial file systems.
\<close>

fun sample_bbox :: "font \<Rightarrow> string \<Rightarrow> bbox" where
  "sample_bbox DefaultFont text = (0, 3, 6, 11)"
| "sample_bbox (FreeTypeFont n pt) text = (pt div 38, pt div 5, 5 * pt div 8, pt - pt div 11)"

definition sample_env :: "bool \<Rightarrow> (string \<Rightarrow> bool) \<Rightarrow> env" where
  "sample_env arial writable =
     \<lparr>truetype_ok = (\<lambda>n pt. arial \<and> n = ''arial.ttf'' \<and> 0 < pt),
      getbbox = sample_bbox,
      makedirs_ok = (\<lambda>p. True),
      write_ok = writable,
      write_residue = (\<lambda>p e. None)\<rparr>"

definition empty_state :: state where
  "empty_state = \<lparr>fs = Map.empty, stdout = [], calls = []\<rparr>"

definition public_dir_state :: state where
  "public_dir_state = \<lparr>fs = [''public'' \<mapsto> Directory], stdout = [], calls = []\<rparr>"

definition public_is_file_state :: state where
  "public_is_file_state = \<lparr>fs = [''public'' \<mapsto> OtherFile ''notes''], stdout = [], calls = []\<rparr>"

section \<open>Properties\<close>

subsection \<open>Decimal strings and icon paths\<close>

lemma digit_char_in: "d < 10 \<Longrightarrow> digit_char d \<in> set ''0123456789''"
  unfolding digit_char_def by (rule nth_mem) simp

lemma digit_char_inj: "a < 10 \<Longrightarrow> b < 10 \<Longrightarrow> digit_char a = digit_char b \<Longrightarrow> a = b"
  unfolding digit_char_def by (subst (asm) nth_eq_iff_index_eq) simp_all

lemma digits10_set: "set (digits10 n) \<subseteq> set ''0123456789''"
proof (induction n rule: digits10.induct)
  case (1 n)
  show ?case
  proof (cases "n < 10")
    case True
    then show ?thesis
      using digit_char_in [of n] by (subst digits10.simps) simp
  next
    case False
    have "n mod 10 < 10" by simp
    then have "digit_char (n mod 10) \<in> set ''0123456789''" by (rule digit_char_in)
    with False 1 show ?thesis
      by (subst digits10.simps) simp
  qed
qed

lemma digits10_nonempty: "digits10 n \<noteq> []"
  by (subst digits10.simps) simp

lemma digits10_inj: "digits10 a = digits10 b \<Longrightarrow> a = b"
proof (induction a arbitrary: b rule: digits10.induct)
  case (1 a)
  show ?case
  proof (cases "a < 10")
    case True
    then have da: "digits10 a = [digit_char a]" by (subst digits10.simps) simp
    show ?thesis
    proof (cases "b < 10")
      case True
      then have "digits10 b = [digit_char b]" by (subst digits10.simps) simp
      with da "1.prems" have "digit_char a = digit_char b" by simp
      with \<open>a < 10\<close> \<open>b < 10\<close> show ?thesis by (rule digit_char_inj)
    next
      case False
      then have "digits10 b = digits10 (b div 10) @ [digit_char (b mod 10)]"
        by (subst digits10.simps) simp
      with da "1.prems" digits10_nonempty [of "b div 10"] show ?thesis by simp
    qed
  next
    case False
    then have da: "digits10 a = digits10 (a div 10) @ [digit_char (a mod 10)]"
      by (subst digits10.simps) simp
    show ?thesis
    proof (cases "b < 10")
      case True
      then have "digits10 b = [digit_char b]" by (subst digits10.simps) simp
      with da "1.prems" digits10_nonempty [of "a div 10"] show ?thesis by simp
    next
      case b: False
      then have "digits10 b = digits10 (b div 10) @ [digit_char (b mod 10)]"
        by (subst digits10.simps) simp
      with da "1.prems" have eq: "digits10 (a div 10) = digits10 (b div 10)"
        and dc: "digit_char (a mod 10) = digit_char (b mod 10)" by simp_all
      from "1.IH" [OF False eq] have d: "a div 10 = b div 10" .
      have "a mod 10 = b mod 10"
        by (rule digit_char_inj [OF _ _ dc]) simp_all
      with d have "a div 10 * 10 + a mod 10 = b div 10 * 10 + b mod 10" by simp
      then show ?thesis by (simp only: div_mult_mod_eq)
    qed
  qed
qed

lemma str_int_set: "set (str_int i) \<subseteq> set ''-0123456789''"
proof (cases "i < 0")
  case True
  have "set (digits10 (nat (- i))) \<subseteq> set ''-0123456789''"
    using digits10_set [of "nat (- i)"] set_subset_Cons [of "''0123456789''" "CHR ''-''"]
    by (rule subset_trans)
  with True show ?thesis by (simp add: str_int_def)
next
  case False
  have "set (digits10 (nat i)) \<subseteq> set ''-0123456789''"
    using digits10_set [of "nat i"] set_subset_Cons [of "''0123456789''" "CHR ''-''"]
    by (rule subset_trans)
  with False show ?thesis by (simp add: str_int_def)
qed

lemma str_int_avoids: "c \<notin> set ''-0123456789'' \<Longrightarrow> c \<notin> set (str_int i)"
  using str_int_set [of i] by (rule contra_subsetD)

lemma str_int_inj: "str_int a = str_int b \<Longrightarrow> a = b"
proof -
  assume eq: "str_int a = str_int b"
  have nominus: "\<And>n ds. digits10 n \<noteq> CHR ''-'' # ds"
  proof
    fix n ds assume "digits10 n = CHR ''-'' # ds"
    then have "CHR ''-'' \<in> set (digits10 n)" by simp
    with digits10_set [of n] have "CHR ''-'' \<in> set ''0123456789''" by (rule subsetD)
    then show False by simp
  qed
  show ?thesis
  proof (cases "a < 0")
    case True
    show ?thesis
    proof (cases "b < 0")
      case b: True
      with True eq have "digits10 (nat (- a)) = digits10 (nat (- b))" by (simp add: str_int_def)
      then have "nat (- a) = nat (- b)" by (rule digits10_inj)
      with True b show ?thesis by simp
    next
      case False
      with True eq nominus [of "nat b" "digits10 (nat (- a))"] show ?thesis
        by (simp add: str_int_def)
    qed
  next
    case False
    show ?thesis
    proof (cases "b < 0")
      case True
      with False eq nominus [of "nat a" "digits10 (nat (- b))"] show ?thesis
        by (simp add: str_int_def)
    next
      case b: False
      with False eq have "digits10 (nat a) = digits10 (nat b)" by (simp add: str_int_def)
      then have "nat a = nat b" by (rule digits10_inj)
      with False b show ?thesis by simp
    qed
  qed
qed

lemma split_at_sep:
  assumes "c \<notin> set u" "c \<notin> set v" "u @ c # r = v @ c # s"
  shows "u = v \<and> r = s"
proof -
  have "takeWhile (\<lambda>x. x \<noteq> c) (u @ c # r) = u" "takeWhile (\<lambda>x. x \<noteq> c) (v @ c # s) = v"
    using assms(1,2) by (auto simp: takeWhile_tail)
  with assms(3) have "u = v" by simp
  with assms(3) show ?thesis by simp
qed

lemma icon_name_inj: "icon_name a = icon_name b \<Longrightarrow> a = b"
proof -
  assume "icon_name a = icon_name b"
  then have eq: "str_int a @ CHR ''x'' # (str_int a @ ''.png'') = str_int b @ CHR ''x'' # (str_int b @ ''.png'')"
    by (simp add: icon_name_def)
  have "CHR ''x'' \<notin> set (str_int a)" "CHR ''x'' \<notin> set (str_int b)"
    by (rule str_int_avoids, simp)+
  from split_at_sep [OF this eq] have "str_int a = str_int b" by simp
  then show ?thesis by (rule str_int_inj)
qed

lemma icon_path_inj: "icon_path a = icon_path b \<Longrightarrow> a = b"
  by (rule icon_name_inj) (simp add: icon_path_def)

lemma icon_name_no_slash: "CHR ''/'' \<notin> set (icon_name sz)"
proof -
  have "CHR ''/'' \<notin> set (str_int sz)" by (rule str_int_avoids) simp
  then show ?thesis by (simp add: icon_name_def)
qed

lemma dirname_icon_path: "dirname (icon_path sz) = ''public''"
proof -
  have "rev (icon_path sz) = rev (icon_name sz) @ CHR ''/'' # rev ''public''"
    by (simp add: icon_path_def)
  moreover have "\<forall>c\<in>set (rev (icon_name sz)). c \<noteq> CHR ''/''"
    using icon_name_no_slash [of sz] by auto
  ultimately have "dropWhile (\<lambda>c. c \<noteq> CHR ''/'') (rev (icon_path sz)) = CHR ''/'' # rev ''public''"
    by (simp add: dropWhile_append3)
  then show ?thesis by (simp add: dirname_def)
qed

lemma icon_path_not_public: "icon_path sz \<noteq> ''public''"
  by (simp add: icon_path_def)

lemma font_size_192: "font_size 192 = 76"
  by (simp add: font_size_def float_mul_def float_of_nat_def round53_def bit_length.simps
      round_half_even_def float_0_4_def trunc_float_def)

lemma font_size_512: "font_size 512 = 204"
  by (simp add: font_size_def float_mul_def float_of_nat_def round53_def bit_length.simps
      round_half_even_def float_0_4_def trunc_float_def)

lemma icon_name_192: "icon_name 192 = ''icon-192x192.png''"
  by (simp add: icon_name_def str_int_def digits10.simps digit_char_def)

lemma icon_name_512: "icon_name 512 = ''icon-512x512.png''"
  by (simp add: icon_name_def str_int_def digits10.simps digit_char_def)

subsection \<open>One iteration\<close>

lemma load_font_eq:
  "load_font env sz st = (resolved_font env sz, st\<lparr>calls := calls st @ font_calls env sz\<rparr>)"
  by (simp add: load_font_def resolved_font_def font_calls_def log_call_def)

lemma save_ok:
  assumes "save_succeeds env (fs st) p"
  shows "save env img p st =
    (Inr (), st\<lparr>calls := calls st @ [Save p], fs := (fs st)(p \<mapsto> PngFile img)\<rparr>)"
  using assms by (simp add: save_def save_succeeds_def log_call_def Let_def)

lemma save_fail:
  assumes "\<not> save_succeeds env (fs st) p"
  shows "\<exists>e st'. save env img p st = (Inl e, st') \<and> calls st' = calls st @ [Save p]
     \<and> stdout st' = stdout st \<and> (\<forall>q. q \<noteq> p \<longrightarrow> fs st' q = fs st q)"
proof (cases "fs st (dirname p)")
  case None
  then show ?thesis by (simp add: save_def log_call_def Let_def)
next
  case (Some d)
  show ?thesis
  proof (cases "d = Directory")
    case False
    with Some show ?thesis
      by (cases d) (simp_all add: save_def log_call_def Let_def)
  next
    case True
    show ?thesis
    proof (cases "fs st p = Some Directory")
      case isdir: True
      with Some True show ?thesis by (simp add: save_def log_call_def Let_def)
    next
      case False
      with Some True assms have "\<not> write_ok env p" by (simp add: save_succeeds_def)
      with Some True False show ?thesis by (simp add: save_def log_call_def Let_def)
    qed
  qed
qed

lemma process_size_ok:
  assumes "save_succeeds env (fs st) (icon_path sz)"
  shows "process_size env sz st =
    (Inr (), st\<lparr>calls := calls st @ size_calls env sz,
               fs := (fs st)(icon_path sz \<mapsto> PngFile (the_icon env sz)),
               stdout := stdout st @ [created_line sz]\<rparr>)"
proof -
  let ?st1 = "st\<lparr>calls := calls st @ font_calls env sz\<rparr>"
  from assms have "save_succeeds env (fs ?st1) (icon_path sz)" by simp
  from save_ok [OF this] show ?thesis
    by (simp add: process_size_def load_font_eq the_icon_def size_calls_def created_line_def
        print_def)
qed

lemma process_size_fail:
  assumes "\<not> save_succeeds env (fs st) (icon_path sz)"
  shows "\<exists>e st'. process_size env sz st = (Inl e, st')
     \<and> calls st' = calls st @ size_calls env sz
     \<and> stdout st' = stdout st \<and> (\<forall>q. q \<noteq> icon_path sz \<longrightarrow> fs st' q = fs st q)"
proof -
  let ?st1 = "st\<lparr>calls := calls st @ font_calls env sz\<rparr>"
  from assms have "\<not> save_succeeds env (fs ?st1) (icon_path sz)" by simp
  from save_fail [OF this, of "icon_image env (resolved_font env sz) sz"]
  obtain e st' where "save env (icon_image env (resolved_font env sz) sz) (icon_path sz) ?st1 = (Inl e, st')"
    "calls st' = calls ?st1 @ [Save (icon_path sz)]" "stdout st' = stdout ?st1"
    "\<forall>q. q \<noteq> icon_path sz \<longrightarrow> fs st' q = fs ?st1 q" by blast
  then show ?thesis
    by (simp add: process_size_def load_font_eq size_calls_def)
qed

lemma save_succeeds_upd:
  assumes "save_succeeds env fsys (icon_path s)"
  shows "save_succeeds env (fsys(icon_path s \<mapsto> PngFile img)) (icon_path s')
     \<longleftrightarrow> save_succeeds env fsys (icon_path s')"
  using assms icon_path_not_public [of s]
  by (auto simp: save_succeeds_def dirname_icon_path)


subsection \<open>The loop\<close>

lemma for_sizes_ok:
  assumes "\<forall>s\<in>set szs. save_succeeds env (fs st) (icon_path s)"
  shows "\<exists>st'. for_sizes env szs st = (Inr (), st')
     \<and> calls st' = calls st @ concat (map (size_calls env) szs)
     \<and> stdout st' = stdout st @ map created_line szs
     \<and> (\<forall>s\<in>set szs. fs st' (icon_path s) = Some (PngFile (the_icon env s)))
     \<and> (\<forall>q. q \<notin> icon_path ` set szs \<longrightarrow> fs st' q = fs st q)"
  using assms
proof (induction szs arbitrary: st)
  case Nil
  then show ?case by simp
next
  case (Cons sz rest)
  let ?st1 = "st\<lparr>calls := calls st @ size_calls env sz,
               fs := (fs st)(icon_path sz \<mapsto> PngFile (the_icon env sz)),
               stdout := stdout st @ [created_line sz]\<rparr>"
  from Cons.prems have ok: "save_succeeds env (fs st) (icon_path sz)" by simp
  then have step: "process_size env sz st = (Inr (), ?st1)" by (rule process_size_ok)
  have "\<forall>s\<in>set rest. save_succeeds env (fs ?st1) (icon_path s)"
    using Cons.prems save_succeeds_upd [OF ok] by simp
  from Cons.IH [OF this] obtain st' where
    run: "for_sizes env rest ?st1 = (Inr (), st')"
    and c: "calls st' = calls ?st1 @ concat (map (size_calls env) rest)"
    and out: "stdout st' = stdout ?st1 @ map created_line rest"
    and files: "\<forall>s\<in>set rest. fs st' (icon_path s) = Some (PngFile (the_icon env s))"
    and others: "\<forall>q. q \<notin> icon_path ` set rest \<longrightarrow> fs st' q = fs ?st1 q"
    by blast
  have "for_sizes env (sz # rest) st = (Inr (), st')"
    using step run by simp
  moreover have "calls st' = calls st @ concat (map (size_calls env) (sz # rest))"
    using c by simp
  moreover have "stdout st' = stdout st @ map created_line (sz # rest)"
    using out by simp
  moreover have "\<forall>s\<in>set (sz # rest). fs st' (icon_path s) = Some (PngFile (the_icon env s))"
  proof
    fix s assume s: "s \<in> set (sz # rest)"
    show "fs st' (icon_path s) = Some (PngFile (the_icon env s))"
    proof (cases "s \<in> set rest")
      case True
      with files show ?thesis by simp
    next
      case False
      with s have eq: "s = sz" by simp
      have "icon_path sz \<notin> icon_path ` set rest"
        using False eq by (auto dest: icon_path_inj)
      with others have "fs st' (icon_path sz) = fs ?st1 (icon_path sz)" by blast
      with eq show ?thesis by simp
    qed
  qed
  moreover have "\<forall>q. q \<notin> icon_path ` set (sz # rest) \<longrightarrow> fs st' q = fs st q"
    using others by simp
  ultimately show ?case by blast
qed

lemma for_sizes_fail:
  assumes pre: "\<forall>s\<in>set pre. save_succeeds env (fs st) (icon_path s)"
    and sz: "\<not> save_succeeds env (fs st) (icon_path sz)"
  shows "\<exists>e st'. for_sizes env (pre @ sz # post) st = (Inl e, st')
     \<and> calls st' = calls st @ concat (map (size_calls env) (pre @ [sz]))
     \<and> stdout st' = stdout st @ map created_line pre
     \<and> (\<forall>s\<in>set pre. fs st' (icon_path s) = Some (PngFile (the_icon env s)))
     \<and> (\<forall>q. q \<notin> icon_path ` set (pre @ [sz]) \<longrightarrow> fs st' q = fs st q)"
  using assms
proof (induction pre arbitrary: st)
  case Nil
  from process_size_fail [OF Nil.prems(2)] obtain e st' where
    "process_size env sz st = (Inl e, st')" "calls st' = calls st @ size_calls env sz"
    "stdout st' = stdout st" "\<forall>q. q \<noteq> icon_path sz \<longrightarrow> fs st' q = fs st q"
    by blast
  then show ?case by simp
next
  case (Cons a pre)
  let ?st1 = "st\<lparr>calls := calls st @ size_calls env a,
               fs := (fs st)(icon_path a \<mapsto> PngFile (the_icon env a)),
               stdout := stdout st @ [created_line a]\<rparr>"
  from Cons.prems have ok: "save_succeeds env (fs st) (icon_path a)" by simp
  then have step: "process_size env a st = (Inr (), ?st1)" by (rule process_size_ok)
  have p1: "\<forall>s\<in>set pre. save_succeeds env (fs ?st1) (icon_path s)"
    using Cons.prems(1) save_succeeds_upd [OF ok] by simp
  have p2: "\<not> save_succeeds env (fs ?st1) (icon_path sz)"
    using Cons.prems(2) save_succeeds_upd [OF ok] by simp
  have neq: "icon_path a \<noteq> icon_path sz"
    using ok Cons.prems(2) by auto
  from Cons.IH [OF p1 p2] obtain e st' where
    run: "for_sizes env (pre @ sz # post) ?st1 = (Inl e, st')"
    and c: "calls st' = calls ?st1 @ concat (map (size_calls env) (pre @ [sz]))"
    and out: "stdout st' = stdout ?st1 @ map created_line pre"
    and files: "\<forall>s\<in>set pre. fs st' (icon_path s) = Some (PngFile (the_icon env s))"
    and others: "\<forall>q. q \<notin> icon_path ` set (pre @ [sz]) \<longrightarrow> fs st' q = fs ?st1 q"
    by blast
  have "for_sizes env ((a # pre) @ sz # post) st = (Inl e, st')"
    using step run by simp
  moreover have "calls st' = calls st @ concat (map (size_calls env) ((a # pre) @ [sz]))"
    using c by simp
  moreover have "stdout st' = stdout st @ map created_line (a # pre)"
    using out by simp
  moreover have "\<forall>s\<in>set (a # pre). fs st' (icon_path s) = Some (PngFile (the_icon env s))"
  proof
    fix s assume s: "s \<in> set (a # pre)"
    show "fs st' (icon_path s) = Some (PngFile (the_icon env s))"
    proof (cases "s \<in> set pre")
      case True
      with files show ?thesis by simp
    next
      case False
      with s have eq: "s = a" by simp
      have "icon_path a \<notin> icon_path ` set (pre @ [sz])"
        using False eq neq by (auto dest: icon_path_inj)
      with others have "fs st' (icon_path a) = fs ?st1 (icon_path a)" by blast
      with eq show ?thesis by simp
    qed
  qed
  moreover have "\<forall>q. q \<notin> icon_path ` set ((a # pre) @ [sz]) \<longrightarrow> fs st' q = fs st q"
    using others by simp
  ultimately show ?case by blast
qed

lemma for_sizes_Inl_split:
  assumes "for_sizes env szs st = (Inl e, st')"
  shows "\<exists>pre sz post. szs = pre @ sz # post
     \<and> (\<forall>s\<in>set pre. save_succeeds env (fs st) (icon_path s))
     \<and> \<not> save_succeeds env (fs st) (icon_path sz)"
proof -
  have "\<exists>s\<in>set szs. \<not> save_succeeds env (fs st) (icon_path s)"
  proof (rule ccontr)
    assume "\<not> ?thesis"
    then have "\<forall>s\<in>set szs. save_succeeds env (fs st) (icon_path s)" by blast
    from for_sizes_ok [OF this] assms show False by auto
  qed
  from split_list_first_prop [OF this] show ?thesis by blast
qed

subsection \<open>The directory step\<close>

lemma ensure_public_present:
  assumes "fs st ''public'' \<noteq> None"
  shows "ensure_public env st = (Inr (), st\<lparr>calls := calls st @ [PathExists ''public'']\<rparr>)"
  using assms by (simp add: ensure_public_def path_exists_def log_call_def)

lemma ensure_public_created:
  assumes "fs st ''public'' = None" "makedirs_ok env ''public''"
  shows "ensure_public env st =
    (Inr (), st\<lparr>calls := calls st @ [PathExists ''public'', Makedirs ''public''],
               fs := (fs st)(''public'' \<mapsto> Directory)\<rparr>)"
  using assms by (simp add: ensure_public_def path_exists_def makedirs_def log_call_def Let_def)

lemma ensure_public_denied:
  assumes "fs st ''public'' = None" "\<not> makedirs_ok env ''public''"
  shows "ensure_public env st =
    (Inl PermissionError, st\<lparr>calls := calls st @ [PathExists ''public'', Makedirs ''public'']\<rparr>)"
  using assms by (simp add: ensure_public_def path_exists_def makedirs_def log_call_def Let_def)

subsection \<open>Layout of the glyph\<close>

lemma textbbox_origin: "textbbox env (0, 0) text font = getbbox env font text"
  by (simp add: textbbox_def split: prod.splits)

lemma drawn_icon_image:
  "drawn (icon_image env font sz) =
     [Text (position sz (getbbox env font ''B'')) ''B'' ''white'' font]"
  by (simp add: icon_image_def Image_new_def draw_text_def textbbox_origin Let_def)

lemma img_size_icon_image: "img_size (icon_image env font sz) = (sz, sz)"
  by (simp add: icon_image_def Image_new_def draw_text_def Let_def)

text \<open>
  Claim C1. The glyph width is \<open>right - left\<close> and the glyph height is \<open>bottom - top\<close>
  of the measured box, and the draw origin is
  \<open>((size - width) div 2, (size - height) div 2)\<close> with floor division: each coordinate
  \<open>x\<close> is the integer with \<open>2 * x \<le> size - width < 2 * x + 2\<close>. Nothing is clamped: a
  glyph wider (taller) than the canvas gets a negative coordinate. The text operation of
  the canvas carries exactly this origin, computed from the box measured at \<open>(0, 0)\<close>.
\<close>

theorem position_floor_centre:
  "text_width (l, t, r, b) = r - l
   \<and> text_height (l, t, r, b) = b - t
   \<and> position sz (l, t, r, b) = ((sz - (r - l)) div 2, (sz - (b - t)) div 2)
   \<and> 2 * fst (position sz (l, t, r, b)) \<le> sz - (r - l)
   \<and> sz - (r - l) < 2 * fst (position sz (l, t, r, b)) + 2
   \<and> 2 * snd (position sz (l, t, r, b)) \<le> sz - (b - t)
   \<and> sz - (b - t) < 2 * snd (position sz (l, t, r, b)) + 2
   \<and> (sz < r - l \<longrightarrow> fst (position sz (l, t, r, b)) < 0)
   \<and> (sz < b - t \<longrightarrow> snd (position sz (l, t, r, b)) < 0)
   \<and> drawn (icon_image env font sz) =
       [Text (position sz (textbbox env (0, 0) ''B'' font)) ''B'' ''white'' font]"
proof -
  have w: "text_width (l, t, r, b) = r - l" and h: "text_height (l, t, r, b) = b - t"
    by (simp_all add: text_width_def text_height_def)
  have p: "position sz (l, t, r, b) = ((sz - (r - l)) div 2, (sz - (b - t)) div 2)"
    by (simp add: position_def w h)
  have d: "drawn (icon_image env font sz) =
       [Text (position sz (textbbox env (0, 0) ''B'' font)) ''B'' ''white'' font]"
    by (simp add: drawn_icon_image textbbox_origin)
  have x: "2 * ((sz - (r - l)) div 2) \<le> sz - (r - l)"
    "sz - (r - l) < 2 * ((sz - (r - l)) div 2) + 2"
    "sz < r - l \<Longrightarrow> (sz - (r - l)) div 2 < 0" by presburger+
  have y: "2 * ((sz - (b - t)) div 2) \<le> sz - (b - t)"
    "sz - (b - t) < 2 * ((sz - (b - t)) div 2) + 2"
    "sz < b - t \<Longrightarrow> (sz - (b - t)) div 2 < 0" by presburger+
  show ?thesis
    unfolding p fst_conv snd_conv using w h d x y by blast
qed

theorem position_floor_centre_witness:
  "(10::int) < 16 - 0 \<and> (10::int) < 31 - 3
   \<and> position 10 (0, 3, 16, 31) = (- 3, - 9)
   \<and> fst (position 10 (0, 3, 16, 31)) < 0 \<and> snd (position 10 (0, 3, 16, 31)) < 0"
  using position_floor_centre [of 0 3 16 31 10] by simp

text \<open>
  Claim C2. When the size is at least the glyph's width and height, the draw origin plus
  half the glyph's extent is within one pixel of half the size, in both directions; this
  holds with exact halves and with floor-divided halves, and the origin is not negative.
\<close>

theorem centring_within_pixel:
  assumes "text_width bbox \<le> sz" and "text_height bbox \<le> sz"
  shows "\<bar>real_of_int (fst (position sz bbox)) + real_of_int (text_width bbox) / 2
            - real_of_int sz / 2\<bar> \<le> 1
       \<and> \<bar>real_of_int (snd (position sz bbox)) + real_of_int (text_height bbox) / 2
            - real_of_int sz / 2\<bar> \<le> 1
       \<and> 0 \<le> fst (position sz bbox) \<and> 0 \<le> snd (position sz bbox)
       \<and> \<bar>fst (position sz bbox) + text_width bbox div 2 - sz div 2\<bar> \<le> 1
       \<and> \<bar>snd (position sz bbox) + text_height bbox div 2 - sz div 2\<bar> \<le> 1"
proof -
  have real_half: "\<bar>real_of_int ((s - w) div 2) + real_of_int w / 2 - real_of_int s / 2\<bar> \<le> 1"
    for s w :: int
  proof -
    have "s - w = 2 * ((s - w) div 2) + (s - w) mod 2" by simp
    then have "real_of_int (s - w) = 2 * real_of_int ((s - w) div 2) + real_of_int ((s - w) mod 2)"
      by (metis of_int_add of_int_mult of_int_numeral)
    moreover have "0 \<le> real_of_int ((s - w) mod 2)" "real_of_int ((s - w) mod 2) \<le> 1"
      by simp_all
    ultimately show ?thesis by (simp add: abs_le_iff) 
  qed
  have int_half: "\<bar>(s - w) div 2 + w div 2 - s div 2\<bar> \<le> 1" for s w :: int
    by presburger
  have nonneg: "w \<le> s \<Longrightarrow> 0 \<le> (s - w) div 2" for s w :: int
    by simp
  show ?thesis
    using assms real_half [of sz "text_width bbox"] real_half [of sz "text_height bbox"]
      int_half [of sz "text_width bbox"] int_half [of sz "text_height bbox"]
      nonneg [of "text_width bbox" sz] nonneg [of "text_height bbox" sz]
    by (simp add: position_def)
qed

theorem centring_within_pixel_witness:
  "text_width (2, 14, 47, 69) \<le> 192 \<and> text_height (2, 14, 47, 69) \<le> 192
   \<and> position 192 (2, 14, 47, 69) = (73, 68)
   \<and> \<bar>real_of_int (fst (position 192 (2, 14, 47, 69)))
        + real_of_int (text_width (2, 14, 47, 69)) / 2 - real_of_int 192 / 2\<bar> \<le> 1
   \<and> \<bar>real_of_int (snd (position 192 (2, 14, 47, 69)))
        + real_of_int (text_height (2, 14, 47, 69)) / 2 - real_of_int 192 / 2\<bar> \<le> 1"
  using centring_within_pixel [of "(2, 14, 47, 69)" 192]
  by (simp add: text_width_def text_height_def position_def)

subsection \<open>The sample environments\<close>

lemma sample_env_simps:
  "truetype_ok (sample_env arial writable) n pt \<longleftrightarrow> arial \<and> n = ''arial.ttf'' \<and> 0 < pt"
  "getbbox (sample_env arial writable) = sample_bbox"
  "makedirs_ok (sample_env arial writable) p"
  "write_ok (sample_env arial writable) = writable"
  "write_residue (sample_env arial writable) p e = None"
  by (simp_all add: sample_env_def)

subsection \<open>The point size\<close>

lemma bit_length_bounds:
  "0 < n \<Longrightarrow> 2 ^ (bit_length n - 1) \<le> n \<and> n < 2 ^ bit_length n"
proof (induction n rule: bit_length.induct)
  case (1 n)
  from "1.prems" have bl: "bit_length n = Suc (bit_length (n div 2))"
    by (subst bit_length.simps) simp
  show ?case
  proof (cases "n div 2 = 0")
    case True
    then have "bit_length (n div 2) = 0" by (subst bit_length.simps) simp
    moreover from True "1.prems" have "n = 1" by (simp add: div_eq_0_iff)
    ultimately show ?thesis using bl by simp
  next
    case False
    with "1.IH" "1.prems" have ih: "2 ^ (bit_length (n div 2) - 1) \<le> n div 2"
      "n div 2 < 2 ^ bit_length (n div 2)" by simp_all
    from False have "bit_length (n div 2) = Suc (bit_length (n div 2 div 2))"
      by (subst bit_length.simps) simp
    then have "(2::nat) ^ bit_length (n div 2) = 2 * 2 ^ (bit_length (n div 2) - 1)"
      by simp
    with ih(1) have lo: "2 ^ bit_length (n div 2) \<le> n" by simp
    from ih(2) have hi: "n < 2 * 2 ^ bit_length (n div 2)" by simp
    from lo hi bl show ?thesis by simp
  qed
qed

lemma round_half_even_range:
  "round_half_even p k = p div 2 ^ k \<or> round_half_even p k = p div 2 ^ k + 1"
  by (simp add: round_half_even_def Let_def)

lemma round_half_even_0: "round_half_even p 0 = p"
  by (simp add: round_half_even_def)

lemma float_of_nat_exact:
  assumes "n < 2 ^ 53"
  shows "float_of_nat n = (n, 0)"
proof -
  have "bit_length n \<le> 53"
  proof (cases "n = 0")
    case True
    then show ?thesis by (subst bit_length.simps) simp
  next
    case False
    then have "(2::nat) ^ (bit_length n - 1) \<le> n" using bit_length_bounds [of n] by simp
    then have lt: "(2::nat) ^ (bit_length n - 1) < 2 ^ 53" using assms by (rule le_less_trans)
    have "bit_length n - 1 < 53"
    proof (rule power_less_imp_less_exp)
      show "(1::nat) < 2" by simp
      show "(2::nat) ^ (bit_length n - 1) < 2 ^ 53" by (rule lt)
    qed
    then show ?thesis by simp
  qed
  then show ?thesis by (simp add: float_of_nat_def round53_def round_half_even_0)
qed

lemma rounding_gap:
  fixes X n t :: nat
  assumes "X < n" and "2 * n \<le> 5 * t + 4" and "n < 1125899906842624"
    and "(t + 1) * 9007199254740992 \<le> n * 3602879701896397 + X"
  shows False
proof -
  have a: "(2 * n + 1) * 9007199254740992 \<le> 5 * ((t + 1) * 9007199254740992)"
    using assms(2) by simp
  have b: "5 * ((t + 1) * 9007199254740992) \<le> 5 * (n * 3602879701896397 + X)"
    using assms(4) by simp
  have c: "5 * (n * 3602879701896397 + X) < n * 18014398509481985 + 5 * n"
    using assms(1) by simp
  from a b c have "(2 * n + 1) * 9007199254740992 < n * 18014398509481985 + 5 * n"
    by linarith
  then have "9007199254740992 < 6 * n" by simp
  with assms(3) show False by simp
qed

lemma product_trunc:
  assumes n: "n < 2 ^ 50"
  shows "trunc_float (round53 (n * 3602879701896397) (- 53)) = int (2 * n div 5)"
proof -
  define P where "P = n * 3602879701896397"
  define t where "t = 2 * n div 5"
  have t: "5 * t \<le> 2 * n" "2 * n \<le> 5 * t + 4"
    unfolding t_def by presburger+
  have n': "n < 1125899906842624" using n by simp
  show ?thesis
  proof (cases "bit_length P \<le> 53")
    case True
    have "P < 2 ^ 53"
    proof (cases "P = 0")
      case False
      then have "P < 2 ^ bit_length P" using bit_length_bounds [of P] by simp
      also have "(2::nat) ^ bit_length P \<le> 2 ^ 53"
        by (rule power_increasing [OF True]) simp
      finally show ?thesis .
    qed simp
    then have "n * 3602879701896397 < 9007199254740992" by (simp add: P_def)
    then have "n \<le> 2" by simp
    then have "t = 0" unfolding t_def by simp
    moreover have "trunc_float (round53 P (- 53)) = int P div 2 ^ 53"
      using True by (simp add: round53_def round_half_even_0 trunc_float_def)
    moreover have "int P div 2 ^ 53 = 0" using \<open>P < 2 ^ 53\<close> by simp
    ultimately show ?thesis by (simp add: P_def t_def)
  next
    case False
    define k where "k = bit_length P - 53"
    from False have k: "0 < k" "bit_length P = 53 + k" by (simp_all add: k_def)
    from False have "0 < P" by (cases "P = 0") (simp_all add: bit_length.simps)
    then have "2 ^ (bit_length P - 1) \<le> P" using bit_length_bounds [of P] by simp
    then have "(2::nat) ^ (52 + k) \<le> P" using k by simp
    then have lowP: "4503599627370496 * 2 ^ k \<le> P" by (simp add: power_add)
    define X :: nat where "X = 2 ^ k"
    have X: "4503599627370496 * X \<le> n * 3602879701896397"
      using lowP by (simp add: X_def P_def)
    have Xpos: "0 < X" by (simp add: X_def)
    with X have Xn: "X < n" by linarith
    have "X < 2 ^ 50" using Xn n by (rule less_trans)
    then have lt: "(2::nat) ^ k < 2 ^ 50" by (simp only: X_def)
    have "k < 50"
    proof (rule power_less_imp_less_exp)
      show "(1::nat) < 2" by simp
      show "(2::nat) ^ k < 2 ^ 50" by (rule lt)
    qed
    define j where "j = 53 - k"
    define Y :: nat where "Y = 2 ^ j"
    have jk: "j + k = 53" "0 < j" using \<open>k < 50\<close> by (simp_all add: j_def)
    have YX: "Y * X = 9007199254740992"
      unfolding X_def Y_def power_add [symmetric] jk by simp
    define q where "q = P div X"
    have q: "q * X \<le> P" "P < (q + 1) * X"
      unfolding q_def using div_times_less_eq_dividend [of P X] dividend_less_div_times [of X P]
      by (simp_all add: X_def)
    have tP: "t * 9007199254740992 \<le> P" using t(1) unfolding P_def by linarith
    have lower: "t * Y \<le> q"
    proof (rule ccontr)
      assume "\<not> t * Y \<le> q"
      then have "q + 1 \<le> t * Y" by simp
      then have "(q + 1) * X \<le> t * Y * X" by (rule mult_le_mono1)
      also have "\<dots> = t * 9007199254740992" using YX by (simp add: mult.assoc)
      finally show False using tP q(2) by linarith
    qed
    have upper: "q + 1 < (t + 1) * Y"
    proof (rule ccontr)
      assume "\<not> q + 1 < (t + 1) * Y"
      then have "(t + 1) * Y \<le> q + 1" by simp
      then have "(t + 1) * Y * X \<le> (q + 1) * X" by (rule mult_le_mono1)
      moreover have "(t + 1) * Y * X = (t + 1) * 9007199254740992"
        by (simp only: mult.assoc YX)
      moreover have "(q + 1) * X = q * X + X" by (simp add: algebra_simps)
      ultimately have "(t + 1) * 9007199254740992 \<le> P + X" using q(1) by linarith
      then have "(t + 1) * 9007199254740992 \<le> n * 3602879701896397 + X" by (simp add: P_def)
      with Xn t(2) n' show False by (rule rounding_gap)
    qed
    define m where "m = round_half_even P k"
    have "m = q \<or> m = q + 1"
      using round_half_even_range [of P k] by (simp add: m_def q_def X_def)
    with lower upper have "t * Y \<le> m" "m < (t + 1) * Y" by auto
    then have "m div Y = t"
      by (intro div_nat_eqI) (simp_all add: mult.commute)
    moreover have "trunc_float (round53 P (- 53)) = int m div 2 ^ j"
    proof -
      have "- 53 + int k < 0" using \<open>k < 50\<close> by simp
      moreover have "nat (53 - int k) = j" using \<open>k < 50\<close> by (simp add: j_def)
      ultimately show ?thesis
        by (simp add: round53_def k_def [symmetric] m_def [symmetric] trunc_float_def Let_def)
    qed
    moreover have "int m div 2 ^ j = int (m div Y)"
      by (simp add: Y_def zdiv_int)
    ultimately show ?thesis by (simp add: P_def t_def)
  qed
qed

lemma font_size_floor:
  assumes "0 \<le> sz" and "sz < 2 ^ 50"
  shows "font_size sz = (2 * sz) div 5" and "font_size sz = \<lfloor>real_of_int sz * (4 / 10)\<rfloor>"
proof -
  have n: "nat sz < 2 ^ 50" using assms by (simp add: nat_less_iff)
  then have "nat sz < 2 ^ 53" by (rule less_trans) simp
  then have f: "float_of_nat (nat sz) = (nat sz, 0)" by (rule float_of_nat_exact)
  have "trunc_float (float_mul (float_of_nat (nat \<bar>sz\<bar>)) float_0_4) = int (2 * nat sz div 5)"
    using assms(1) product_trunc [OF n] by (simp add: f float_mul_def float_0_4_def)
  also have "\<dots> = (2 * sz) div 5" using assms(1) by (simp add: zdiv_int)
  finally have tr: "trunc_float (float_mul (float_of_nat (nat \<bar>sz\<bar>)) float_0_4) = (2 * sz) div 5" .
  show 1: "font_size sz = (2 * sz) div 5"
  proof (cases "sz = 0")
    case True
    then show ?thesis by (simp add: font_size_def)
  next
    case False
    with assms(1) have "sgn sz = 1" by simp
    with tr show ?thesis by (simp add: font_size_def)
  qed
  have "real_of_int sz * (4 / 10) = real_of_int (2 * sz) / real_of_int 5" by simp
  then have "\<lfloor>real_of_int sz * (4 / 10)\<rfloor> = (2 * sz) div 5"
    by (simp only: floor_divide_of_int_eq)
  with 1 show "font_size sz = \<lfloor>real_of_int sz * (4 / 10)\<rfloor>" by simp
qed

text \<open>
  The double written \<^verbatim>\<open>0.4\<close>: among the multiples of \<open>2 ^ - 54\<close> (the doubles between
  a quarter and a half) none is nearer to \<open>2 / 5\<close> than \<open>7205759403792794 / 2 ^ 54\<close>,
  which is the value of \<open>float_0_4\<close>. The product with 192 is a tie that rounds to even,
  the double Python prints as \<^verbatim>\<open>76.80000000000001\<close>.
\<close>

lemma float_0_4_nearest:
  "\<bar>5 * 7205759403792794 - 2 ^ 55\<bar> \<le> \<bar>5 * m - (2 ^ 55 :: int)\<bar>"
proof -
  have "5 * m \<noteq> 36028797018963968 + k" if "k \<in> {- 1, 0, 1}" for k :: int
  proof
    assume "5 * m = 36028797018963968 + k"
    then have "(36028797018963968 + k) mod 5 = 0" by (metis mod_mult_self1_is_0)
    with that show False by auto
  qed
  from this [of "- 1"] this [of 0] this [of 1] show ?thesis by simp
qed

lemma float_0_4_value: "2 * int (fst float_0_4) = 7205759403792794 \<and> snd float_0_4 - 1 = - 54"
  by (simp add: float_0_4_def)

lemma product_192: "float_mul (float_of_nat 192) float_0_4 = (5404319552844596, - 46)"
  by (simp add: float_mul_def float_of_nat_def round53_def bit_length.simps
      round_half_even_def float_0_4_def)

lemma floor_sizes: "\<lfloor>real_of_int 192 * (4 / 10)\<rfloor> = 76" "\<lfloor>real_of_int 512 * (4 / 10)\<rfloor> = 204"
  by (simp_all add: floor_eq_iff)

lemma new_calls_append: "calls st' = calls st @ cs \<Longrightarrow> new_calls st st' = cs"
  by (simp add: new_calls_def)

lemma new_output_append: "stdout st' = stdout st @ ls \<Longrightarrow> new_output st st' = ls"
  by (simp add: new_output_def)

text \<open>
  Claim C7. For each of the sizes the script processes, the point size it requests is
  \<open>\<lfloor>size * 0.4\<rfloor>\<close>: 76 for 192 and 204 for 512. The same holds for every size from 0
  up to \<open>2 ^ 50\<close>: rounding the binary64 product never reaches the next integer. The
  font request of an iteration asks for \<^verbatim>\<open>arial.ttf\<close> at that point size.
\<close>

theorem font_point_size:
  "(\<forall>sz\<in>set sizes. font_size sz = \<lfloor>real_of_int sz * (4 / 10)\<rfloor>)
   \<and> font_size 192 = 76 \<and> font_size 512 = 204
   \<and> (0 \<le> n \<and> n < 2 ^ 50 \<longrightarrow> font_size n = \<lfloor>real_of_int n * (4 / 10)\<rfloor>)
   \<and> font_requests (new_calls st (snd (load_font env sz st))) = [(''arial.ttf'', font_size sz)]"
proof -
  have "calls (snd (load_font env sz st)) = calls st @ font_calls env sz"
    by (simp add: load_font_eq)
  then have "new_calls st (snd (load_font env sz st)) = font_calls env sz"
    by (rule new_calls_append)
  then have "font_requests (new_calls st (snd (load_font env sz st))) = [(''arial.ttf'', font_size sz)]"
    by (simp add: font_calls_def)
  moreover have "font_size n = \<lfloor>real_of_int n * (4 / 10)\<rfloor>" if "0 \<le> n" "n < 2 ^ 50"
    using that by (rule font_size_floor(2))
  ultimately show ?thesis
    by (simp add: sizes_def font_size_192 font_size_512 floor_sizes)
qed

theorem font_point_size_witness:
  "192 \<in> set sizes \<and> font_size 192 = \<lfloor>real_of_int 192 * (4 / 10)\<rfloor>
   \<and> 512 \<in> set sizes \<and> font_size 512 = \<lfloor>real_of_int 512 * (4 / 10)\<rfloor>
   \<and> (0::int) \<le> 1000 \<and> (1000::int) < 2 ^ 50 \<and> font_size 1000 = 400"
  using font_point_size [of 1000] by (simp add: sizes_def)

subsection \<open>Where the glyph lands\<close>

text \<open>
  Claim C9. The text is drawn at the computed origin; the left and top offsets of the
  measured box are not subtracted. The box the glyph inks on the canvas is therefore the
  centring box moved by exactly \<open>(left, top)\<close>, and differs from it whenever one of the
  two offsets is not zero.
\<close>

theorem glyph_ink_offset:
  assumes "getbbox env font ''B'' = (l, t, r, b)"
  shows "drawn (icon_image env font sz) = [Text (position sz (l, t, r, b)) ''B'' ''white'' font]
     \<and> map (ink_box env) (drawn (icon_image env font sz))
         = [translate (l, t) (centring_box sz (l, t, r, b))]
     \<and> (l \<noteq> 0 \<or> t \<noteq> 0 \<longrightarrow>
          map (ink_box env) (drawn (icon_image env font sz)) \<noteq> [centring_box sz (l, t, r, b)])"
proof -
  obtain x y where p: "position sz (l, t, r, b) = (x, y)" by (cases "position sz (l, t, r, b)")
  have d: "drawn (icon_image env font sz) = [Text (x, y) ''B'' ''white'' font]"
    using assms p by (simp add: drawn_icon_image)
  have ink: "textbbox env (x, y) ''B'' font = (x + l, y + t, x + r, y + b)"
    using assms by (simp add: textbbox_def)
  have c: "centring_box sz (l, t, r, b) = (x, y, x + (r - l), y + (b - t))"
    using p by (simp add: centring_box_def text_width_def text_height_def)
  show ?thesis
    unfolding p d c by (simp add: ink translate_def)
qed

theorem glyph_ink_offset_witness:
  "getbbox (sample_env True (\<lambda>p. True)) (FreeTypeFont ''arial.ttf'' 76) ''B'' = (2, 15, 47, 70)
   \<and> (2::int) \<noteq> 0
   \<and> map (ink_box (sample_env True (\<lambda>p. True)))
        (drawn (icon_image (sample_env True (\<lambda>p. True)) (FreeTypeFont ''arial.ttf'' 76) 192))
      = [(75, 83, 120, 138)]
   \<and> centring_box 192 (2, 15, 47, 70) = (73, 68, 118, 123)
   \<and> map (ink_box (sample_env True (\<lambda>p. True)))
        (drawn (icon_image (sample_env True (\<lambda>p. True)) (FreeTypeFont ''arial.ttf'' 76) 192))
      \<noteq> [centring_box 192 (2, 15, 47, 70)]"
  using glyph_ink_offset [of "sample_env True (\<lambda>p. True)" "FreeTypeFont ''arial.ttf'' 76"
      2 15 47 70 192]
  by (simp add: sample_env_simps centring_box_def position_def text_width_def text_height_def
      translate_def textbbox_def)

subsection \<open>Call logs and error kinds\<close>

lemma saved_paths_append: "saved_paths (xs @ ys) = saved_paths xs @ saved_paths ys"
  by (induction xs rule: saved_paths.induct) simp_all

lemma exists_checks_append: "exists_checks (xs @ ys) = exists_checks xs @ exists_checks ys"
  by (induction xs rule: exists_checks.induct) simp_all

lemma dir_creations_append: "dir_creations (xs @ ys) = dir_creations xs @ dir_creations ys"
  by (induction xs rule: dir_creations.induct) simp_all

lemma font_requests_append: "font_requests (xs @ ys) = font_requests xs @ font_requests ys"
  by (induction xs rule: font_requests.induct) simp_all

lemma size_calls_filters:
  "saved_paths (size_calls env s) = [icon_path s]"
  "exists_checks (size_calls env s) = []"
  "dir_creations (size_calls env s) = []"
  "font_requests (size_calls env s) = [(''arial.ttf'', font_size s)]"
  by (simp_all add: size_calls_def font_calls_def)

lemma loop_calls_filters:
  "saved_paths (concat (map (size_calls env) szs)) = map icon_path szs"
  "exists_checks (concat (map (size_calls env) szs)) = []"
  "dir_creations (concat (map (size_calls env) szs)) = []"
  "font_requests (concat (map (size_calls env) szs)) = map (\<lambda>s. (''arial.ttf'', font_size s)) szs"
  by (induction szs)
    (simp_all add: saved_paths_append exists_checks_append dir_creations_append
      font_requests_append size_calls_filters)

lemma for_sizes_Inr_iff:
  "fst (for_sizes env szs st) = Inr () \<longleftrightarrow>
     (\<forall>s\<in>set szs. save_succeeds env (fs st) (icon_path s))"
proof
  assume r: "fst (for_sizes env szs st) = Inr ()"
  show "\<forall>s\<in>set szs. save_succeeds env (fs st) (icon_path s)"
  proof (rule ccontr)
    assume "\<not> ?thesis"
    then have "\<exists>s\<in>set szs. \<not> save_succeeds env (fs st) (icon_path s)" by blast
    from split_list_first_prop [OF this] obtain pre sz post where
      "szs = pre @ sz # post" "\<not> save_succeeds env (fs st) (icon_path sz)"
      "\<forall>s\<in>set pre. save_succeeds env (fs st) (icon_path s)" by blast
    with for_sizes_fail [of pre env st sz post] r show False by auto
  qed
next
  assume "\<forall>s\<in>set szs. save_succeeds env (fs st) (icon_path s)"
  from for_sizes_ok [OF this] show "fst (for_sizes env szs st) = Inr ()" by auto
qed

lemma for_sizes_calls:
  "\<exists>n\<le>length szs. calls (snd (for_sizes env szs st))
      = calls st @ concat (map (size_calls env) (take n szs))"
proof (cases "\<forall>s\<in>set szs. save_succeeds env (fs st) (icon_path s)")
  case True
  from for_sizes_ok [OF this] have
    "calls (snd (for_sizes env szs st)) = calls st @ concat (map (size_calls env) (take (length szs) szs))"
    by auto
  then show ?thesis by blast
next
  case False
  then have "\<exists>s\<in>set szs. \<not> save_succeeds env (fs st) (icon_path s)" by blast
  from split_list_first_prop [OF this] obtain pre sz post where
    szs: "szs = pre @ sz # post" and "\<not> save_succeeds env (fs st) (icon_path sz)"
    "\<forall>s\<in>set pre. save_succeeds env (fs st) (icon_path s)" by blast
  from for_sizes_fail [OF this(3,2), of post]
  have "calls (snd (for_sizes env szs st)) = calls st @ concat (map (size_calls env) (pre @ [sz]))"
    using szs by auto
  moreover have "take (Suc (length pre)) szs = pre @ [sz]" using szs by simp
  moreover have "Suc (length pre) \<le> length szs" using szs by simp
  ultimately show ?thesis by metis
qed

lemma save_not_exists_error: "fst (save env img p st) \<noteq> Inl FileExistsError"
  by (simp add: save_def Let_def split: option.splits entry.splits)

lemma process_size_not_exists_error: "fst (process_size env sz st) \<noteq> Inl FileExistsError"
proof (cases "save_succeeds env (fs st) (icon_path sz)")
  case True
  then show ?thesis by (simp add: process_size_ok)
next
  case False
  let ?st1 = "st\<lparr>calls := calls st @ font_calls env sz\<rparr>"
  obtain r st2 where s: "save env (icon_image env (resolved_font env sz) sz) (icon_path sz) ?st1 = (r, st2)"
    by (cases "save env (icon_image env (resolved_font env sz) sz) (icon_path sz) ?st1")
  with save_not_exists_error [of env "icon_image env (resolved_font env sz) sz" "icon_path sz" ?st1]
  have "r \<noteq> Inl FileExistsError" by simp
  with s show ?thesis
    by (cases r) (simp_all add: process_size_def load_font_eq)
qed

lemma for_sizes_not_exists_error: "fst (for_sizes env szs st) \<noteq> Inl FileExistsError"
proof (induction szs arbitrary: st)
  case Nil
  then show ?case by simp
next
  case (Cons sz rest)
  obtain r st1 where p: "process_size env sz st = (r, st1)" by (cases "process_size env sz st")
  with process_size_not_exists_error [of env sz st] have "r \<noteq> Inl FileExistsError" by simp
  with p Cons.IH [of st1] show ?case by (cases r) simp_all
qed

lemma ensure_public_cases:
  obtains (present) "fs st ''public'' \<noteq> None"
      "ensure_public env st = (Inr (), st\<lparr>calls := calls st @ [PathExists ''public'']\<rparr>)"
  | (created) "fs st ''public'' = None" "makedirs_ok env ''public''"
      "ensure_public env st =
        (Inr (), st\<lparr>calls := calls st @ [PathExists ''public'', Makedirs ''public''],
                   fs := (fs st)(''public'' \<mapsto> Directory)\<rparr>)"
  | (denied) "fs st ''public'' = None" "\<not> makedirs_ok env ''public''"
      "ensure_public env st =
        (Inl PermissionError, st\<lparr>calls := calls st @ [PathExists ''public'', Makedirs ''public'']\<rparr>)"
  using ensure_public_present [of st env] ensure_public_created [of st env]
    ensure_public_denied [of st env] by blast

subsection \<open>The whole run\<close>

lemma ensure_public_Inr:
  assumes "ensure_public env st = (Inr (), st1)"
  shows "calls st1 = calls st @ dir_calls st" "stdout st1 = stdout st"
    "fs st1 = (if fs st ''public'' = None then (fs st)(''public'' \<mapsto> Directory) else fs st)"
    "fs st ''public'' = None \<longrightarrow> makedirs_ok env ''public''"
  using assms ensure_public_present [of st env] ensure_public_created [of st env]
    ensure_public_denied [of st env]
  by (cases "fs st ''public'' = None"; cases "makedirs_ok env ''public''";
      auto simp: dir_calls_def)+

lemma ensure_public_Inl:
  assumes "ensure_public env st = (Inl e, st1)"
  shows "e = PermissionError" "fs st ''public'' = None" "\<not> makedirs_ok env ''public''"
    "calls st1 = calls st @ dir_calls st" "stdout st1 = stdout st" "fs st1 = fs st"
  using assms ensure_public_present [of st env] ensure_public_created [of st env]
    ensure_public_denied [of st env]
  by (cases "fs st ''public'' = None"; cases "makedirs_ok env ''public''";
      auto simp: dir_calls_def)+

lemma ensure_public_public:
  assumes "ensure_public env st = (Inr (), st1)"
  shows "fs st1 ''public'' \<noteq> None"
    and "fs st1 ''public'' = (if fs st ''public'' = None then Some Directory else fs st ''public'')"
  using ensure_public_Inr(3) [OF assms] by auto

lemma generate_icons_Inr:
  assumes "generate_icons env szs st = (Inr (), st')"
  shows "calls st' = calls st @ dir_calls st @ concat (map (size_calls env) szs)"
    and "stdout st' = stdout st @ map created_line szs @ [''All icons generated!'']"
    and "\<forall>s\<in>set szs. fs st' (icon_path s) = Some (PngFile (the_icon env s))"
    and "\<forall>q. q \<noteq> ''public'' \<longrightarrow> q \<notin> icon_path ` set szs \<longrightarrow> fs st' q = fs st q"
    and "fs st' ''public'' = (if fs st ''public'' = None then Some Directory else fs st ''public'')"
    and "\<forall>s\<in>set szs. save_succeeds env (fs st') (icon_path s)"
    and "fs st ''public'' = None \<longrightarrow> makedirs_ok env ''public''"
proof -
  obtain r0 st1 where e: "ensure_public env st = (r0, st1)" by (cases "ensure_public env st")
  with assms have r0: "r0 = Inr ()" by (cases r0) (simp_all add: generate_icons_def)
  note d = ensure_public_Inr [OF e [unfolded r0]]
  obtain r st2 where l: "for_sizes env szs st1 = (r, st2)" by (cases "for_sizes env szs st1")
  with assms e r0 have r: "r = Inr ()" and st': "st' = print ''All icons generated!'' st2"
    by (cases r; simp add: generate_icons_def)+
  from l r have ok: "\<forall>s\<in>set szs. save_succeeds env (fs st1) (icon_path s)"
    using for_sizes_Inr_iff [of env szs st1] by simp
  from for_sizes_ok [OF ok] l r have
    c: "calls st2 = calls st1 @ concat (map (size_calls env) szs)"
    and out: "stdout st2 = stdout st1 @ map created_line szs"
    and files: "\<forall>s\<in>set szs. fs st2 (icon_path s) = Some (PngFile (the_icon env s))"
    and others: "\<forall>q. q \<notin> icon_path ` set szs \<longrightarrow> fs st2 q = fs st1 q"
    by auto
  have fs': "fs st' = fs st2" "calls st' = calls st2"
    "stdout st' = stdout st2 @ [''All icons generated!'']"
    by (simp_all add: st' print_def)
  show "calls st' = calls st @ dir_calls st @ concat (map (size_calls env) szs)"
    using c d(1) fs' by simp
  show "stdout st' = stdout st @ map created_line szs @ [''All icons generated!'']"
    using out d(2) fs' by simp
  show "\<forall>s\<in>set szs. fs st' (icon_path s) = Some (PngFile (the_icon env s))"
    using files fs' by simp
  show "\<forall>q. q \<noteq> ''public'' \<longrightarrow> q \<notin> icon_path ` set szs \<longrightarrow> fs st' q = fs st q"
    using others d(3) fs' by simp
  have pub: "''public'' \<notin> icon_path ` set szs"
    using icon_path_not_public by (metis imageE)
  with others have "fs st2 ''public'' = fs st1 ''public''" by blast
  then show p: "fs st' ''public'' = (if fs st ''public'' = None then Some Directory else fs st ''public'')"
    using d(3) fs' by simp
  show "\<forall>s\<in>set szs. save_succeeds env (fs st') (icon_path s)"
  proof
    fix s assume s: "s \<in> set szs"
    with ok have "save_succeeds env (fs st1) (icon_path s)" by blast
    then have "fs st1 ''public'' = Some Directory" "write_ok env (icon_path s)"
      by (simp_all add: save_succeeds_def dirname_icon_path)
    moreover have "fs st2 ''public'' = fs st1 ''public''" using pub others by blast
    moreover have "fs st2 (icon_path s) = Some (PngFile (the_icon env s))" using files s by blast
    ultimately show "save_succeeds env (fs st') (icon_path s)"
      using fs' by (simp add: save_succeeds_def dirname_icon_path)
  qed
  show "fs st ''public'' = None \<longrightarrow> makedirs_ok env ''public''" by (rule d(4))
qed

lemma generate_icons_Inl:
  assumes "generate_icons env szs st = (Inl e, st')"
  shows "(e = PermissionError \<and> fs st ''public'' = None \<and> \<not> makedirs_ok env ''public''
          \<and> calls st' = calls st @ dir_calls st \<and> stdout st' = stdout st \<and> fs st' = fs st)
       \<or> (\<exists>pre sz post. szs = pre @ sz # post
          \<and> calls st' = calls st @ dir_calls st @ concat (map (size_calls env) (pre @ [sz]))
          \<and> stdout st' = stdout st @ map created_line pre
          \<and> (\<forall>s\<in>set pre. fs st' (icon_path s) = Some (PngFile (the_icon env s)))
          \<and> (\<forall>q. q \<noteq> ''public'' \<longrightarrow> q \<notin> icon_path ` set (pre @ [sz]) \<longrightarrow> fs st' q = fs st q))"
proof -
  obtain r0 st1 where e: "ensure_public env st = (r0, st1)" by (cases "ensure_public env st")
  show ?thesis
  proof (cases r0)
    case (Inl e0)
    with e assms have "e0 = e" "st1 = st'" by (simp_all add: generate_icons_def)
    with e Inl have "ensure_public env st = (Inl e, st')" by simp
    from ensure_public_Inl [OF this] show ?thesis by simp
  next
    case (Inr u)
    with e have e': "ensure_public env st = (Inr (), st1)" by simp
    note d = ensure_public_Inr [OF e']
    obtain r st2 where l: "for_sizes env szs st1 = (r, st2)" by (cases "for_sizes env szs st1")
    with assms e' have l': "for_sizes env szs st1 = (Inl e, st')"
      by (cases r) (simp_all add: generate_icons_def)
    from for_sizes_Inl_split [OF l'] obtain pre sz post where
      szs: "szs = pre @ sz # post"
      and pre: "\<forall>s\<in>set pre. save_succeeds env (fs st1) (icon_path s)"
      and sz: "\<not> save_succeeds env (fs st1) (icon_path sz)" by blast
    from for_sizes_fail [OF pre sz, of post] l' szs have
      c: "calls st' = calls st1 @ concat (map (size_calls env) (pre @ [sz]))"
      and out: "stdout st' = stdout st1 @ map created_line pre"
      and files: "\<forall>s\<in>set pre. fs st' (icon_path s) = Some (PngFile (the_icon env s))"
      and others: "\<forall>q. q \<notin> icon_path ` set (pre @ [sz]) \<longrightarrow> fs st' q = fs st1 q"
      by auto
    have o: "\<forall>q. q \<noteq> ''public'' \<longrightarrow> q \<notin> icon_path ` set (pre @ [sz]) \<longrightarrow> fs st' q = fs st q"
      using others d(3) by simp
    have c': "calls st' = calls st @ dir_calls st @ concat (map (size_calls env) (pre @ [sz]))"
      using c d(1) by simp
    have out': "stdout st' = stdout st @ map created_line pre"
      using out d(2) by simp
    from szs c' out' files o show ?thesis by blast
  qed
qed

lemma generate_icons_succeeds:
  assumes dir: "fs st ''public'' = Some Directory \<or> (fs st ''public'' = None \<and> makedirs_ok env ''public'')"
    and files: "\<forall>s\<in>set szs. fs st (icon_path s) \<noteq> Some Directory \<and> write_ok env (icon_path s)"
  shows "fst (generate_icons env szs st) = Inr ()"
proof -
  obtain st1 where e: "ensure_public env st = (Inr (), st1)"
    using dir ensure_public_present [of st env] ensure_public_created [of st env] by auto
  from ensure_public_Inr(3) [OF e] dir have
    pub: "fs st1 ''public'' = Some Directory"
    and same: "\<forall>s. fs st1 (icon_path s) = fs st (icon_path s)"
    using icon_path_not_public by auto
  have "\<forall>s\<in>set szs. save_succeeds env (fs st1) (icon_path s)"
    using files pub same by (simp add: save_succeeds_def dirname_icon_path)
  then have "fst (for_sizes env szs st1) = Inr ()" by (simp add: for_sizes_Inr_iff)
  then obtain st2 where "for_sizes env szs st1 = (Inr (), st2)"
    by (cases "for_sizes env szs st1") simp
  with e show ?thesis by (simp add: generate_icons_def)
qed

lemma generate_icons_calls:
  "\<exists>cs. calls (snd (generate_icons env szs st)) = calls st @ dir_calls st @ cs
     \<and> exists_checks cs = [] \<and> dir_creations cs = []"
proof -
  obtain r st' where g: "generate_icons env szs st = (r, st')"
    by (cases "generate_icons env szs st")
  show ?thesis
  proof (cases r)
    case (Inr u)
    with g have "generate_icons env szs st = (Inr (), st')" by simp
    from generate_icons_Inr(1) [OF this] g show ?thesis
      by (simp add: loop_calls_filters)
  next
    case (Inl e)
    with g have "generate_icons env szs st = (Inl e, st')" by simp
    from generate_icons_Inl [OF this] consider
      "calls st' = calls st @ dir_calls st @ []"
      | pre sz where "calls st' = calls st @ dir_calls st @ concat (map (size_calls env) (pre @ [sz]))"
      by auto
    then show ?thesis
    proof cases
      case 1
      with g show ?thesis by simp
    next
      case 2
      with g show ?thesis
        using loop_calls_filters(2,3) [of env "pre @ [sz]"] by auto
    qed
  qed
qed

lemma dir_calls_filters:
  "exists_checks (dir_calls st) = [''public'']"
  "dir_creations (dir_calls st) = (if fs st ''public'' = None then [''public''] else [])"
  "saved_paths (dir_calls st) = []"
  "font_requests (dir_calls st) = []"
  by (simp_all add: dir_calls_def)

lemma generate_icons_not_exists_error:
  "fst (generate_icons env szs st) \<noteq> Inl FileExistsError"
proof
  assume a: "fst (generate_icons env szs st) = Inl FileExistsError"
  obtain r0 st1 where e: "ensure_public env st = (r0, st1)" by (cases "ensure_public env st")
  show False
  proof (cases r0)
    case (Inl e0)
    with e ensure_public_Inl(1) [of env st e0 st1] have "e0 = PermissionError" by simp
    with e Inl a show False by (simp add: generate_icons_def)
  next
    case (Inr u)
    obtain r st2 where l: "for_sizes env szs st1 = (r, st2)" by (cases "for_sizes env szs st1")
    with for_sizes_not_exists_error [of env szs st1] have "r \<noteq> Inl FileExistsError" by simp
    with e Inr l a show False by (cases r) (simp_all add: generate_icons_def)
  qed
qed

lemma generate_icons_rerun:
  assumes "generate_icons env szs st = (Inr (), st1)"
  shows "fst (generate_icons env szs st1) = Inr ()"
    and "dir_calls st1 = [PathExists ''public'']"
    and "fs (snd (generate_icons env szs st1)) = fs st1"
proof -
  note r1 = generate_icons_Inr [OF assms]
  have pub: "fs st1 ''public'' \<noteq> None" using r1(5) by (simp split: if_splits)
  then show dc: "dir_calls st1 = [PathExists ''public'']" by (simp add: dir_calls_def)
  let ?st1' = "st1\<lparr>calls := calls st1 @ [PathExists ''public'']\<rparr>"
  have e: "ensure_public env st1 = (Inr (), ?st1')" using pub by (rule ensure_public_present)
  have "\<forall>s\<in>set szs. save_succeeds env (fs ?st1') (icon_path s)" using r1(6) by simp
  then have "fst (for_sizes env szs ?st1') = Inr ()" by (simp add: for_sizes_Inr_iff)
  then obtain st2 where l: "for_sizes env szs ?st1' = (Inr (), st2)"
    by (cases "for_sizes env szs ?st1'") simp
  with e have g: "generate_icons env szs st1 = (Inr (), print ''All icons generated!'' st2)"
    by (simp add: generate_icons_def)
  then show "fst (generate_icons env szs st1) = Inr ()" by simp
  note r2 = generate_icons_Inr [OF g]
  have "fs (print ''All icons generated!'' st2) q = fs st1 q" for q
  proof (cases "q = ''public''")
    case True
    with r2(5) pub show ?thesis by simp
  next
    case False
    show ?thesis
    proof (cases "q \<in> icon_path ` set szs")
      case True
      then obtain s where "s \<in> set szs" "q = icon_path s" by blast
      with r1(3) r2(3) show ?thesis by simp
    next
      case notin: False
      with False r2(4) show ?thesis by blast
    qed
  qed
  then have "fs (print ''All icons generated!'' st2) = fs st1" by (rule ext)
  with g show "fs (snd (generate_icons env szs st1)) = fs st1" by simp
qed

subsection \<open>What a failed write and the directory step leave behind\<close>

lemma save_Inr_iff: "fst (save env img p st) = Inr () \<longleftrightarrow> save_succeeds env (fs st) p"
proof
  assume r: "fst (save env img p st) = Inr ()"
  show "save_succeeds env (fs st) p"
  proof (rule ccontr)
    assume "\<not> save_succeeds env (fs st) p"
    from save_fail [OF this, of img] r show False by auto
  qed
next
  assume "save_succeeds env (fs st) p"
  then show "fst (save env img p st) = Inr ()" by (simp add: save_ok)
qed

lemma save_fst_cong:
  assumes "fs st (dirname p) = fs st2 (dirname p)" and "fs st p = fs st2 p"
  shows "fst (save env img p st) = fst (save env img2 p st2)"
  using assms
  by (simp add: save_def log_call_def Let_def split: option.splits entry.splits)

lemma process_size_fst:
  "fst (process_size env sz st) = fst (save env img (icon_path sz) st)"
proof -
  let ?st1 = "st\<lparr>calls := calls st @ font_calls env sz\<rparr>"
  let ?img = "icon_image env (resolved_font env sz) sz"
  obtain r st2 where s: "save env ?img (icon_path sz) ?st1 = (r, st2)"
    by (cases "save env ?img (icon_path sz) ?st1")
  then have "fst (process_size env sz st) = r"
    by (cases r) (simp_all add: process_size_def load_font_eq)
  also have "r = fst (save env ?img (icon_path sz) ?st1)" using s by simp
  also have "\<dots> = fst (save env img (icon_path sz) st)"
    by (rule save_fst_cong) simp_all
  finally show ?thesis .
qed

lemma for_sizes_fail_error:
  assumes pre: "\<forall>s\<in>set pre. save_succeeds env (fs st) (icon_path s)"
    and sz: "\<not> save_succeeds env (fs st) (icon_path sz)"
  shows "fst (for_sizes env (pre @ sz # post) st) = fst (save env img (icon_path sz) st)"
  using assms
proof (induction pre arbitrary: st)
  case Nil
  have ne: "fst (process_size env sz st) \<noteq> Inr ()"
    using Nil.prems(2) process_size_fst [of env sz st img] save_Inr_iff [of env img "icon_path sz" st]
    by simp
  obtain r st1 where p: "process_size env sz st = (r, st1)" by (cases "process_size env sz st")
  with ne obtain e where "r = Inl e" by (cases r) auto
  with p have "fst (for_sizes env (sz # post) st) = fst (process_size env sz st)" by simp
  then show ?case by (simp add: process_size_fst [of env sz st img])
next
  case (Cons a pre)
  let ?st1 = "st\<lparr>calls := calls st @ size_calls env a,
               fs := (fs st)(icon_path a \<mapsto> PngFile (the_icon env a)),
               stdout := stdout st @ [created_line a]\<rparr>"
  from Cons.prems have ok: "save_succeeds env (fs st) (icon_path a)" by simp
  then have step: "process_size env a st = (Inr (), ?st1)" by (rule process_size_ok)
  have p1: "\<forall>s\<in>set pre. save_succeeds env (fs ?st1) (icon_path s)"
    using Cons.prems(1) save_succeeds_upd [OF ok] by simp
  have p2: "\<not> save_succeeds env (fs ?st1) (icon_path sz)"
    using Cons.prems(2) save_succeeds_upd [OF ok] by simp
  have neq: "icon_path a \<noteq> icon_path sz"
    using ok Cons.prems(2) by auto
  have "fst (for_sizes env ((a # pre) @ sz # post) st) = fst (for_sizes env (pre @ sz # post) ?st1)"
    using step by simp
  also have "\<dots> = fst (save env img (icon_path sz) ?st1)" by (rule Cons.IH [OF p1 p2])
  also have "\<dots> = fst (save env img (icon_path sz) st)"
    using neq icon_path_not_public [of a]
    by (intro save_fst_cong) (auto simp: dirname_icon_path)
  finally show ?case .
qed

lemma for_sizes_public: "fs (snd (for_sizes env szs st)) ''public'' = fs st ''public''"
proof (cases "\<forall>s\<in>set szs. save_succeeds env (fs st) (icon_path s)")
  case True
  have "''public'' \<notin> icon_path ` set szs" using icon_path_not_public by (metis imageE)
  with for_sizes_ok [OF True] show ?thesis by auto
next
  case False
  then have "\<exists>s\<in>set szs. \<not> save_succeeds env (fs st) (icon_path s)" by blast
  from split_list_first_prop [OF this] obtain pre sz post where
    szs: "szs = pre @ sz # post" and "\<not> save_succeeds env (fs st) (icon_path sz)"
    "\<forall>s\<in>set pre. save_succeeds env (fs st) (icon_path s)" by blast
  from for_sizes_fail [OF this(3,2), of post] obtain e st' where
    r: "for_sizes env (pre @ sz # post) st = (Inl e, st')"
    and o: "\<forall>q. q \<notin> icon_path ` set (pre @ [sz]) \<longrightarrow> fs st' q = fs st q" by blast
  have "''public'' \<notin> icon_path ` set (pre @ [sz])" using icon_path_not_public by (metis imageE)
  with o have "fs st' ''public'' = fs st ''public''" by blast
  with r szs show ?thesis by simp
qed

lemma generate_icons_fs:
  assumes "ensure_public env st = (Inr (), st1)"
  shows "fs (snd (generate_icons env szs st)) = fs (snd (for_sizes env szs st1))"
    and "fst (generate_icons env szs st) = fst (for_sizes env szs st1)"
proof -
  obtain r st2 where l: "for_sizes env szs st1 = (r, st2)" by (cases "for_sizes env szs st1")
  then show "fs (snd (generate_icons env szs st)) = fs (snd (for_sizes env szs st1))"
    using assms by (cases r) (simp_all add: generate_icons_def print_def)
  from l show "fst (generate_icons env szs st) = fst (for_sizes env szs st1)"
    using assms by (cases r) (simp_all add: generate_icons_def)
qed

lemma generate_icons_public:
  "fs (snd (generate_icons env szs st)) ''public''
     = (if fs st ''public'' = None \<and> makedirs_ok env ''public'' then Some Directory
        else fs st ''public'')"
proof (rule ensure_public_cases [of st env])
  assume p: "fs st ''public'' \<noteq> None"
    and e: "ensure_public env st = (Inr (), st\<lparr>calls := calls st @ [PathExists ''public'']\<rparr>)"
  from generate_icons_fs(1) [OF e] p show ?thesis
    by (simp add: for_sizes_public)
next
  assume p: "fs st ''public'' = None" "makedirs_ok env ''public''"
    and e: "ensure_public env st =
        (Inr (), st\<lparr>calls := calls st @ [PathExists ''public'', Makedirs ''public''],
                   fs := (fs st)(''public'' \<mapsto> Directory)\<rparr>)"
  from generate_icons_fs(1) [OF e] p show ?thesis
    by (simp add: for_sizes_public)
next
  assume p: "fs st ''public'' = None" "\<not> makedirs_ok env ''public''"
    and e: "ensure_public env st =
        (Inl PermissionError, st\<lparr>calls := calls st @ [PathExists ''public'', Makedirs ''public'']\<rparr>)"
  then show ?thesis by (simp add: generate_icons_def)
qed

lemma ensure_public_ready:
  assumes "fs st ''public'' \<noteq> None \<or> makedirs_ok env ''public''"
  shows "\<exists>st1. ensure_public env st = (Inr (), st1) \<and> fs st1 = fs_after_dir st
     \<and> calls st1 = calls st @ dir_calls st \<and> stdout st1 = stdout st"
proof (cases "fs st ''public'' = None")
  case True
  with assms have "makedirs_ok env ''public''" by simp
  with True ensure_public_created [of st env] show ?thesis
    by (simp add: fs_after_dir_def dir_calls_def)
next
  case False
  then have "ensure_public env st = (Inr (), st\<lparr>calls := calls st @ [PathExists ''public'']\<rparr>)"
    by (rule ensure_public_present)
  moreover have "fs_after_dir st = fs st" "dir_calls st = [PathExists ''public'']"
    using False by (auto simp: fs_after_dir_def dir_calls_def)
  ultimately show ?thesis by simp
qed

lemma makedirs_existing:
  "fs st p \<noteq> None \<Longrightarrow> makedirs env p st = (Inl FileExistsError, log_call (Makedirs p) st)"
  by (simp add: makedirs_def log_call_def Let_def)

lemma generate_icons_denied:
  assumes "fs st ''public'' = None" and "\<not> makedirs_ok env ''public''"
  shows "generate_icons env szs st =
    (Inl PermissionError, st\<lparr>calls := calls st @ [PathExists ''public'', Makedirs ''public'']\<rparr>)"
  using ensure_public_denied [OF assms] by (simp add: generate_icons_def)

subsection \<open>Evaluation on the sample inputs, and two failing iterations\<close>

lemma sample_states:
  "fs empty_state = Map.empty" "stdout empty_state = []" "calls empty_state = []"
  "fs public_dir_state = [''public'' \<mapsto> Directory]" "stdout public_dir_state = []"
  "calls public_dir_state = []"
  "fs public_is_file_state = [''public'' \<mapsto> OtherFile ''notes'']"
  "stdout public_is_file_state = []" "calls public_is_file_state = []"
  by (simp_all add: empty_state_def public_dir_state_def public_is_file_state_def)

lemma icon_path_eq_iff: "icon_path a = icon_path b \<longleftrightarrow> a = b"
  using icon_path_inj by blast

lemma public_not_icon_path: "''public'' \<noteq> icon_path sz"
  using icon_path_not_public [of sz] by simp

lemma icon_path_192: "icon_path 192 = ''public/icon-192x192.png''"
  by (simp add: icon_path_def icon_name_192)

lemma icon_path_512: "icon_path 512 = ''public/icon-512x512.png''"
  by (simp add: icon_path_def icon_name_512)

lemma process_size_write_refused:
  assumes "fs st ''public'' = Some Directory" "fs st (icon_path sz) \<noteq> Some Directory"
    "\<not> write_ok env (icon_path sz)"
  shows "process_size env sz st =
    (Inl OSError, st\<lparr>calls := calls st @ size_calls env sz,
       fs := (fs st)(icon_path sz := write_residue env (icon_path sz) (fs st (icon_path sz)))\<rparr>)"
  using assms
  by (simp add: process_size_def load_font_eq save_def log_call_def Let_def dirname_icon_path
      size_calls_def)

lemma process_size_not_dir:
  assumes "fs st ''public'' = Some f" "f \<noteq> Directory"
  shows "process_size env sz st =
    (Inl NotADirectoryError, st\<lparr>calls := calls st @ size_calls env sz\<rparr>)"
  using assms
  by (cases f)
    (simp_all add: process_size_def load_font_eq save_def log_call_def Let_def dirname_icon_path
      size_calls_def)

lemma last_size_calls: "last (xs @ size_calls env sz) = Save (icon_path sz)"
  by (simp add: size_calls_def)

lemma the_icon_sample_192:
  "the_icon (sample_env True w) 192 =
     \<lparr>mode = ''RGB'', img_size = (192, 192), color = ''#3b82f6'',
      drawn = [Text (73, 68) ''B'' ''white'' (FreeTypeFont ''arial.ttf'' 76)]\<rparr>"
  by (simp add: the_icon_def icon_image_def resolved_font_def font_size_192 sample_env_simps
      Image_new_def draw_text_def textbbox_def position_def text_width_def text_height_def Let_def)

lemma the_icon_sample_default_192:
  "icon_image (sample_env False w) DefaultFont 192 =
     \<lparr>mode = ''RGB'', img_size = (192, 192), color = ''#3b82f6'',
      drawn = [Text (93, 92) ''B'' ''white'' DefaultFont]\<rparr>"
  by (simp add: icon_image_def sample_env_simps
      Image_new_def draw_text_def textbbox_def position_def text_width_def text_height_def Let_def)

lemma sample_save_eval:
  "fst (save (sample_env a w) img (icon_path s) (empty_state\<lparr>fs := fs_after_dir empty_state\<rparr>))
     = (if w (icon_path s) then Inr () else Inl OSError)"
  by (simp add: save_def Let_def log_call_def fs_after_dir_def sample_states sample_env_simps
      dirname_icon_path public_not_icon_path icon_path_not_public)

subsection \<open>The directory step happens once and tolerates an existing directory\<close>

text \<open>
  Claim C5. Whatever the list of sizes and whatever the outcome, a run checks the
  existence of \<^verbatim>\<open>public\<close> exactly once, and it calls \<^verbatim>\<open>makedirs\<close> exactly when
  the path is absent: once then, never otherwise. An absent path is created (the step
  returns with \<^verbatim>\<open>public\<close> entered as a directory, and it is a directory when the run
  ends), or, when the system refuses the creation, the run ends there with that error.
  When the path exists the step only performs the check: nothing is created and the file
  system is unchanged, although \<^verbatim>\<open>makedirs\<close> called on that path would raise
  \<^verbatim>\<open>FileExistsError\<close>; such a run never ends in \<^verbatim>\<open>FileExistsError\<close>. After any run
  that got past the directory step the path exists, so the next run checks once, creates
  nothing and does not end in \<^verbatim>\<open>FileExistsError\<close>; and after a successful run the next
  run succeeds again and leaves the file system as it found it.
\<close>

theorem directory_step_once:
  "exists_checks (new_calls st (snd (generate_icons env szs st))) = [''public'']
   \<and> dir_creations (new_calls st (snd (generate_icons env szs st)))
       = (if fs st ''public'' = None then [''public''] else [])
   \<and> (fs st ''public'' = None \<and> makedirs_ok env ''public'' \<longrightarrow>
        ensure_public env st
          = (Inr (), st\<lparr>calls := calls st @ [PathExists ''public'', Makedirs ''public''],
                       fs := (fs st)(''public'' \<mapsto> Directory)\<rparr>)
        \<and> fs (snd (generate_icons env szs st)) ''public'' = Some Directory)
   \<and> (fs st ''public'' = None \<and> \<not> makedirs_ok env ''public'' \<longrightarrow>
        generate_icons env szs st
          = (Inl PermissionError,
             st\<lparr>calls := calls st @ [PathExists ''public'', Makedirs ''public'']\<rparr>))
   \<and> (fs st ''public'' \<noteq> None \<longrightarrow>
        ensure_public env st = (Inr (), log_call (PathExists ''public'') st)
        \<and> fs (snd (ensure_public env st)) = fs st
        \<and> fst (makedirs env ''public'' st) = Inl FileExistsError
        \<and> fst (generate_icons env szs st) \<noteq> Inl FileExistsError
        \<and> fs (snd (generate_icons env szs st)) ''public'' = fs st ''public'')
   \<and> (fs st ''public'' \<noteq> None \<or> makedirs_ok env ''public'' \<longrightarrow>
        fs (snd (generate_icons env szs st)) ''public'' \<noteq> None
        \<and> exists_checks (new_calls (snd (generate_icons env szs st))
            (snd (generate_icons env szs (snd (generate_icons env szs st))))) = [''public'']
        \<and> dir_creations (new_calls (snd (generate_icons env szs st))
            (snd (generate_icons env szs (snd (generate_icons env szs st))))) = []
        \<and> fst (generate_icons env szs (snd (generate_icons env szs st))) \<noteq> Inl FileExistsError)
   \<and> (fst (generate_icons env szs st) = Inr () \<longrightarrow>
        fst (generate_icons env szs (snd (generate_icons env szs st))) = Inr ()
        \<and> fs (snd (generate_icons env szs (snd (generate_icons env szs st))))
            = fs (snd (generate_icons env szs st)))"
proof -
  let ?run = "generate_icons env szs st"
  let ?run2 = "generate_icons env szs (snd ?run)"
  have checks: "exists_checks (new_calls s0 (snd (generate_icons env szs s0))) = [''public'']"
    and creations: "dir_creations (new_calls s0 (snd (generate_icons env szs s0)))
       = (if fs s0 ''public'' = None then [''public''] else [])" for s0
  proof -
    obtain cs where cs: "calls (snd (generate_icons env szs s0)) = calls s0 @ dir_calls s0 @ cs"
      "exists_checks cs = []" "dir_creations cs = []"
      using generate_icons_calls [of env szs s0] by blast
    then have nc: "new_calls s0 (snd (generate_icons env szs s0)) = dir_calls s0 @ cs"
      by (simp add: new_calls_def)
    show "exists_checks (new_calls s0 (snd (generate_icons env szs s0))) = [''public'']"
      using cs by (simp add: nc exists_checks_append dir_calls_filters)
    show "dir_creations (new_calls s0 (snd (generate_icons env szs s0)))
       = (if fs s0 ''public'' = None then [''public''] else [])"
      using cs by (simp add: nc dir_creations_append dir_calls_filters)
  qed
  have created: "ensure_public env st
          = (Inr (), st\<lparr>calls := calls st @ [PathExists ''public'', Makedirs ''public''],
                       fs := (fs st)(''public'' \<mapsto> Directory)\<rparr>)
        \<and> fs (snd ?run) ''public'' = Some Directory"
    if "fs st ''public'' = None \<and> makedirs_ok env ''public''"
    using that ensure_public_created [of st env] by (simp add: generate_icons_public)
  have denied: "?run
          = (Inl PermissionError,
             st\<lparr>calls := calls st @ [PathExists ''public'', Makedirs ''public'']\<rparr>)"
    if "fs st ''public'' = None \<and> \<not> makedirs_ok env ''public''"
    using that by (simp add: generate_icons_denied)
  have present: "ensure_public env st = (Inr (), log_call (PathExists ''public'') st)
        \<and> fs (snd (ensure_public env st)) = fs st
        \<and> fst (makedirs env ''public'' st) = Inl FileExistsError
        \<and> fst ?run \<noteq> Inl FileExistsError
        \<and> fs (snd ?run) ''public'' = fs st ''public''"
    if p: "fs st ''public'' \<noteq> None"
  proof -
    have 1: "ensure_public env st = (Inr (), log_call (PathExists ''public'') st)"
      using p by (simp add: ensure_public_present log_call_def)
    then have 2: "fs (snd (ensure_public env st)) = fs st" by (simp add: log_call_def)
    have 3: "fst (makedirs env ''public'' st) = Inl FileExistsError"
      using p by (simp add: makedirs_existing)
    have 4: "fst ?run \<noteq> Inl FileExistsError" by (rule generate_icons_not_exists_error)
    have 5: "fs (snd ?run) ''public'' = fs st ''public''"
      using p by (simp add: generate_icons_public)
    from 1 2 3 4 5 show ?thesis by blast
  qed
  have again: "fs (snd ?run) ''public'' \<noteq> None
        \<and> exists_checks (new_calls (snd ?run) (snd ?run2)) = [''public'']
        \<and> dir_creations (new_calls (snd ?run) (snd ?run2)) = []
        \<and> fst ?run2 \<noteq> Inl FileExistsError"
    if "fs st ''public'' \<noteq> None \<or> makedirs_ok env ''public''"
  proof -
    have 1: "fs (snd ?run) ''public'' \<noteq> None"
      using that by (auto simp: generate_icons_public)
    have 2: "exists_checks (new_calls (snd ?run) (snd ?run2)) = [''public'']"
      by (rule checks)
    have 3: "dir_creations (new_calls (snd ?run) (snd ?run2)) = []"
      using 1 creations [of "snd ?run"] by simp
    have 4: "fst ?run2 \<noteq> Inl FileExistsError" by (rule generate_icons_not_exists_error)
    from 1 2 3 4 show ?thesis by blast
  qed
  have rerun: "fst ?run2 = Inr () \<and> fs (snd ?run2) = fs (snd ?run)"
    if "fst ?run = Inr ()"
  proof -
    from that have r: "?run = (Inr (), snd ?run)" by (metis prod.collapse)
    from generate_icons_rerun(1,3) [OF r] show ?thesis by simp
  qed
  show ?thesis
    by (intro conjI impI checks creations; (drule created | drule denied | drule present
        | drule again | drule rerun); blast)
qed

theorem directory_step_once_witness:
  "fs empty_state ''public'' = None
   \<and> makedirs_ok (sample_env True (\<lambda>p. True)) ''public''
   \<and> exists_checks (new_calls empty_state
        (snd (generate_icons (sample_env True (\<lambda>p. True)) sizes empty_state))) = [''public'']
   \<and> dir_creations (new_calls empty_state
        (snd (generate_icons (sample_env True (\<lambda>p. True)) sizes empty_state))) = [''public'']
   \<and> fs (snd (generate_icons (sample_env True (\<lambda>p. True)) sizes empty_state)) ''public''
       = Some Directory
   \<and> fst (generate_icons (sample_env True (\<lambda>p. True)) sizes empty_state) = Inr ()
   \<and> fst (generate_icons (sample_env True (\<lambda>p. True)) sizes
        (snd (generate_icons (sample_env True (\<lambda>p. True)) sizes empty_state))) = Inr ()
   \<and> exists_checks (new_calls
        (snd (generate_icons (sample_env True (\<lambda>p. True)) sizes empty_state))
        (snd (generate_icons (sample_env True (\<lambda>p. True)) sizes
          (snd (generate_icons (sample_env True (\<lambda>p. True)) sizes empty_state))))) = [''public'']
   \<and> dir_creations (new_calls
        (snd (generate_icons (sample_env True (\<lambda>p. True)) sizes empty_state))
        (snd (generate_icons (sample_env True (\<lambda>p. True)) sizes
          (snd (generate_icons (sample_env True (\<lambda>p. True)) sizes empty_state))))) = []
   \<and> fs public_dir_state ''public'' \<noteq> None
   \<and> dir_creations (new_calls public_dir_state
        (snd (generate_icons (sample_env True (\<lambda>p. True)) sizes public_dir_state))) = []
   \<and> fst (makedirs (sample_env True (\<lambda>p. True)) ''public'' public_dir_state)
       = Inl FileExistsError
   \<and> fs (snd (generate_icons (sample_env True (\<lambda>p. True)) sizes public_dir_state)) ''public''
       = Some Directory
   \<and> \<not> makedirs_ok ((sample_env True (\<lambda>p. True))\<lparr>makedirs_ok := (\<lambda>p. False)\<rparr>) ''public''
   \<and> fst (generate_icons ((sample_env True (\<lambda>p. True))\<lparr>makedirs_ok := (\<lambda>p. False)\<rparr>)
        sizes empty_state) = Inl PermissionError
   \<and> dir_creations (new_calls empty_state
        (snd (generate_icons ((sample_env True (\<lambda>p. True))\<lparr>makedirs_ok := (\<lambda>p. False)\<rparr>)
          sizes empty_state))) = [''public'']"
proof -
  let ?E = "sample_env True (\<lambda>p. True)"
  let ?D = "(sample_env True (\<lambda>p. True))\<lparr>makedirs_ok := (\<lambda>p. False)\<rparr>"
  have ok: "fst (generate_icons ?E sizes empty_state) = Inr ()"
    by (rule generate_icons_succeeds) (simp_all add: sample_states sample_env_simps)
  have e: "fs empty_state ''public'' = None" "makedirs_ok ?E ''public''"
    by (simp_all add: sample_states sample_env_simps)
  have p: "fs public_dir_state ''public'' \<noteq> None" by (simp add: sample_states)
  have d: "\<not> makedirs_ok ?D ''public''" by simp
  show ?thesis
    using directory_step_once [of empty_state ?E sizes]
      directory_step_once [of public_dir_state ?E sizes]
      directory_step_once [of empty_state ?D sizes]
      ok e p d
    by (simp add: sample_states new_calls_def)
qed

subsection \<open>Font fallback\<close>

text \<open>
  Claim C3. When the request for the preferred font fails, the iteration goes on with the
  built-in font: \<open>load_font\<close> returns it (it has no error result at all), prints nothing
  and touches no file. The iteration then completes exactly when its file write succeeds,
  so a font failure never makes it fail; and when the write succeeds the output file
  holds the canvas of the declared size drawn with the built-in font, and the progress
  line is printed.
\<close>

theorem font_fallback_total:
  assumes "\<not> truetype_ok env ''arial.ttf'' (font_size sz)"
  shows "load_font env sz st
         = (DefaultFont, st\<lparr>calls := calls st @ [Truetype ''arial.ttf'' (font_size sz), LoadDefault]\<rparr>)
     \<and> (fst (process_size env sz st) = Inr () \<longleftrightarrow> save_succeeds env (fs st) (icon_path sz))
     \<and> (save_succeeds env (fs st) (icon_path sz) \<longrightarrow>
          fs (snd (process_size env sz st)) (icon_path sz)
            = Some (PngFile (icon_image env DefaultFont sz))
          \<and> img_size (icon_image env DefaultFont sz) = (sz, sz)
          \<and> new_output st (snd (process_size env sz st)) = [created_line sz])"
proof -
  have f: "resolved_font env sz = DefaultFont"
    "font_calls env sz = [Truetype ''arial.ttf'' (font_size sz), LoadDefault]"
    using assms by (simp_all add: resolved_font_def font_calls_def)
  have a: "load_font env sz st
         = (DefaultFont, st\<lparr>calls := calls st @ [Truetype ''arial.ttf'' (font_size sz), LoadDefault]\<rparr>)"
    by (simp add: load_font_eq f)
  have b: "fst (process_size env sz st) = Inr () \<longleftrightarrow> save_succeeds env (fs st) (icon_path sz)"
    using for_sizes_Inr_iff [of env "[sz]" st]
    by (cases "process_size env sz st") (auto split: sum.splits)
  have c: "fs (snd (process_size env sz st)) (icon_path sz)
            = Some (PngFile (icon_image env DefaultFont sz))
          \<and> img_size (icon_image env DefaultFont sz) = (sz, sz)
          \<and> new_output st (snd (process_size env sz st)) = [created_line sz]"
    if "save_succeeds env (fs st) (icon_path sz)"
    using process_size_ok [OF that] f
    by (simp add: the_icon_def new_output_def img_size_icon_image)
  from a b c show ?thesis by blast
qed

theorem font_fallback_total_witness:
  "\<not> truetype_ok (sample_env False (\<lambda>p. True)) ''arial.ttf'' (font_size 192)
   \<and> save_succeeds (sample_env False (\<lambda>p. True)) (fs public_dir_state) (icon_path 192)
   \<and> fst (load_font (sample_env False (\<lambda>p. True)) 192 public_dir_state) = DefaultFont
   \<and> fst (process_size (sample_env False (\<lambda>p. True)) 192 public_dir_state) = Inr ()
   \<and> fs (snd (process_size (sample_env False (\<lambda>p. True)) 192 public_dir_state))
        ''public/icon-192x192.png''
       = Some (PngFile \<lparr>mode = ''RGB'', img_size = (192, 192), color = ''#3b82f6'',
            drawn = [Text (93, 92) ''B'' ''white'' DefaultFont]\<rparr>)"
proof -
  let ?E = "sample_env False (\<lambda>p. True)"
  have h: "\<not> truetype_ok ?E ''arial.ttf'' (font_size 192)" by (simp add: sample_env_simps)
  have s: "save_succeeds ?E (fs public_dir_state) (icon_path 192)"
    by (simp add: save_succeeds_def dirname_icon_path sample_states sample_env_simps
        icon_path_not_public public_not_icon_path)
  from font_fallback_total [OF h, of public_dir_state] h s show ?thesis
    by (simp add: the_icon_sample_default_192 icon_path_192)
qed

subsection \<open>A failing file write\<close>

text \<open>
  Claim C4. Let the directory step not fail, and let the sizes be some sizes whose file
  writes succeed, then a size whose file write fails with an error, then any further
  sizes (whether a write succeeds is decided on the file system the directory step
  leaves: earlier iterations change neither the directory entry nor the other targets).
  Then the run ends with exactly that error: the calls made are those of the directory
  step and of the sizes up to and including the failing one, so nothing is requested or
  saved for the remaining sizes; the files of the earlier sizes hold their images; the
  output gained the progress lines of exactly the earlier sizes and not the completion
  line; and apart from \<^verbatim>\<open>public\<close> and the files of the sizes reached, no path changed.
\<close>

theorem write_failure_aborts:
  assumes dir: "fs st ''public'' \<noteq> None \<or> makedirs_ok env ''public''"
    and pre: "\<forall>s\<in>set pre.
        fst (save env (the_icon env s) (icon_path s) (st\<lparr>fs := fs_after_dir st\<rparr>)) = Inr ()"
    and sz: "fst (save env (the_icon env sz) (icon_path sz) (st\<lparr>fs := fs_after_dir st\<rparr>)) = Inl e"
  shows "\<exists>st'. generate_icons env (pre @ sz # post) st = (Inl e, st')
     \<and> new_calls st st' = dir_calls st @ concat (map (size_calls env) (pre @ [sz]))
     \<and> saved_paths (new_calls st st') = map icon_path (pre @ [sz])
     \<and> font_requests (new_calls st st') = map (\<lambda>s. (''arial.ttf'', font_size s)) (pre @ [sz])
     \<and> new_output st st' = map created_line pre
     \<and> ''All icons generated!'' \<notin> set (new_output st st')
     \<and> (\<forall>s\<in>set pre. fs st' (icon_path s) = Some (PngFile (the_icon env s)))
     \<and> (\<forall>q. q \<noteq> ''public'' \<longrightarrow> q \<notin> icon_path ` set (pre @ [sz]) \<longrightarrow> fs st' q = fs st q)"
proof -
  from ensure_public_ready [OF dir] obtain st1 where
    e: "ensure_public env st = (Inr (), st1)" and f1: "fs st1 = fs_after_dir st"
    and c1: "calls st1 = calls st @ dir_calls st" and o1: "stdout st1 = stdout st"
    by blast
  have ok: "\<forall>s\<in>set pre. save_succeeds env (fs st1) (icon_path s)"
    using pre by (simp add: save_Inr_iff f1)
  have "fst (save env (the_icon env sz) (icon_path sz) (st\<lparr>fs := fs_after_dir st\<rparr>)) \<noteq> Inr ()"
    using sz by simp
  then have bad: "\<not> save_succeeds env (fs st1) (icon_path sz)"
    by (simp add: save_Inr_iff f1)
  from for_sizes_fail [OF ok bad, of post] obtain e' st' where
    run: "for_sizes env (pre @ sz # post) st1 = (Inl e', st')"
    and c: "calls st' = calls st1 @ concat (map (size_calls env) (pre @ [sz]))"
    and out: "stdout st' = stdout st1 @ map created_line pre"
    and files: "\<forall>s\<in>set pre. fs st' (icon_path s) = Some (PngFile (the_icon env s))"
    and others: "\<forall>q. q \<notin> icon_path ` set (pre @ [sz]) \<longrightarrow> fs st' q = fs st1 q"
    by blast
  have "fst (for_sizes env (pre @ sz # post) st1)
      = fst (save env (the_icon env sz) (icon_path sz) st1)"
    by (rule for_sizes_fail_error [OF ok bad])
  also have "\<dots> = fst (save env (the_icon env sz) (icon_path sz) (st\<lparr>fs := fs_after_dir st\<rparr>))"
    by (rule save_fst_cong) (simp_all add: f1)
  finally have "e' = e" using run sz by simp
  with e run have g: "generate_icons env (pre @ sz # post) st = (Inl e, st')"
    by (simp add: generate_icons_def)
  have nc: "new_calls st st' = dir_calls st @ concat (map (size_calls env) (pre @ [sz]))"
    using c c1 by (simp add: new_calls_def)
  have saves: "saved_paths (new_calls st st') = map icon_path (pre @ [sz])"
    unfolding nc saved_paths_append loop_calls_filters dir_calls_filters by simp
  have fonts: "font_requests (new_calls st st') = map (\<lambda>s. (''arial.ttf'', font_size s)) (pre @ [sz])"
    unfolding nc font_requests_append loop_calls_filters dir_calls_filters by simp
  have no: "new_output st st' = map created_line pre"
    using out o1 by (simp add: new_output_def)
  have nofinal: "''All icons generated!'' \<notin> set (new_output st st')"
    unfolding no by (auto simp: created_line_def)
  have rest: "\<forall>q. q \<noteq> ''public'' \<longrightarrow> q \<notin> icon_path ` set (pre @ [sz]) \<longrightarrow> fs st' q = fs st q"
    using others f1 by (simp add: fs_after_dir_def)
  from g nc saves fonts no nofinal files rest show ?thesis by blast
qed

theorem write_failure_aborts_witness:
  "makedirs_ok (sample_env True (\<lambda>p. p \<noteq> icon_path 512)) ''public''
   \<and> fst (save (sample_env True (\<lambda>p. p \<noteq> icon_path 512))
          (the_icon (sample_env True (\<lambda>p. p \<noteq> icon_path 512)) 192) (icon_path 192)
          (empty_state\<lparr>fs := fs_after_dir empty_state\<rparr>)) = Inr ()
   \<and> fst (save (sample_env True (\<lambda>p. p \<noteq> icon_path 512))
          (the_icon (sample_env True (\<lambda>p. p \<noteq> icon_path 512)) 512) (icon_path 512)
          (empty_state\<lparr>fs := fs_after_dir empty_state\<rparr>)) = Inl OSError
   \<and> fst (generate_icons (sample_env True (\<lambda>p. p \<noteq> icon_path 512)) [192, 512, 1024] empty_state)
       = Inl OSError
   \<and> saved_paths (new_calls empty_state
        (snd (generate_icons (sample_env True (\<lambda>p. p \<noteq> icon_path 512)) [192, 512, 1024] empty_state)))
       = [''public/icon-192x192.png'', ''public/icon-512x512.png'']
   \<and> new_output empty_state
        (snd (generate_icons (sample_env True (\<lambda>p. p \<noteq> icon_path 512)) [192, 512, 1024] empty_state))
       = [''Created icon-192x192.png'']
   \<and> fs (snd (generate_icons (sample_env True (\<lambda>p. p \<noteq> icon_path 512)) [192, 512, 1024] empty_state))
        ''public/icon-192x192.png''
       = Some (PngFile (the_icon (sample_env True (\<lambda>p. p \<noteq> icon_path 512)) 192))
   \<and> fs (snd (generate_icons (sample_env True (\<lambda>p. p \<noteq> icon_path 512)) [192, 512, 1024] empty_state))
        (icon_path 1024) = None
   \<and> fst (save (sample_env True (\<lambda>p. p \<noteq> icon_path 192))
          (the_icon (sample_env True (\<lambda>p. p \<noteq> icon_path 192)) 192) (icon_path 192)
          (empty_state\<lparr>fs := fs_after_dir empty_state\<rparr>)) = Inl OSError
   \<and> fst (main (sample_env True (\<lambda>p. p \<noteq> icon_path 192)) empty_state) = Inl OSError
   \<and> saved_paths (new_calls empty_state
        (snd (main (sample_env True (\<lambda>p. p \<noteq> icon_path 192)) empty_state)))
       = [''public/icon-192x192.png'']
   \<and> new_output empty_state (snd (main (sample_env True (\<lambda>p. p \<noteq> icon_path 192)) empty_state)) = []
   \<and> fs (snd (main (sample_env True (\<lambda>p. p \<noteq> icon_path 192)) empty_state))
        ''public/icon-512x512.png'' = None"
proof -
  let ?E = "sample_env True (\<lambda>p. p \<noteq> icon_path 512)"
  let ?F = "sample_env True (\<lambda>p. p \<noteq> icon_path 192)"
  let ?st = "empty_state\<lparr>fs := fs_after_dir empty_state\<rparr>"
  have d: "fs empty_state ''public'' \<noteq> None \<or> makedirs_ok ?E ''public''"
    "fs empty_state ''public'' \<noteq> None \<or> makedirs_ok ?F ''public''"
    by (simp_all add: sample_env_simps)
  have m: "makedirs_ok ?E ''public''" by (simp add: sample_env_simps)
  have s192: "fst (save ?E (the_icon ?E 192) (icon_path 192) ?st) = Inr ()"
    by (simp add: sample_save_eval icon_path_eq_iff)
  have s512: "fst (save ?E (the_icon ?E 512) (icon_path 512) ?st) = Inl OSError"
    by (simp add: sample_save_eval)
  have pre: "\<forall>s\<in>set [192]. fst (save ?E (the_icon ?E s) (icon_path s) ?st) = Inr ()"
    using s192 by simp
  from write_failure_aborts [OF d(1) pre s512, of "[1024]"] obtain st' where
    g: "generate_icons ?E [192, 512, 1024] empty_state = (Inl OSError, st')"
    and saves: "saved_paths (new_calls empty_state st') = map icon_path ([192] @ [512])"
    and out: "new_output empty_state st' = map created_line [192]"
    and files: "\<forall>s\<in>set [192]. fs st' (icon_path s) = Some (PngFile (the_icon ?E s))"
    and rest: "\<forall>q. q \<noteq> ''public'' \<longrightarrow> q \<notin> icon_path ` set ([192] @ [512])
        \<longrightarrow> fs st' q = fs empty_state q"
    by auto
  have r1: "fst (generate_icons ?E [192, 512, 1024] empty_state) = Inl OSError"
    "snd (generate_icons ?E [192, 512, 1024] empty_state) = st'"
    using g by simp_all
  have a1: "saved_paths (new_calls empty_state st')
      = [''public/icon-192x192.png'', ''public/icon-512x512.png'']"
    using saves by (simp add: icon_path_192 icon_path_512)
  have a2: "new_output empty_state st' = [''Created icon-192x192.png'']"
    using out by (simp add: created_line_def icon_name_192)
  have a3: "fs st' ''public/icon-192x192.png'' = Some (PngFile (the_icon ?E 192))"
    using files by (simp add: icon_path_192)
  have "fs st' (icon_path 1024) = fs empty_state (icon_path 1024)"
    using rest by (simp add: icon_path_not_public icon_path_eq_iff)
  then have a4: "fs st' (icon_path 1024) = None" by (simp add: sample_states)
  have t192: "fst (save ?F (the_icon ?F 192) (icon_path 192) ?st) = Inl OSError"
    by (simp add: sample_save_eval)
  have pre0: "\<forall>s\<in>set []. fst (save ?F (the_icon ?F s) (icon_path s) ?st) = Inr ()"
    by simp
  from write_failure_aborts [OF d(2) pre0 t192, of "[512]"] obtain st2 where
    g2: "generate_icons ?F [192, 512] empty_state = (Inl OSError, st2)"
    and saves2: "saved_paths (new_calls empty_state st2) = map icon_path ([] @ [192])"
    and out2: "new_output empty_state st2 = map created_line []"
    and rest2: "\<forall>q. q \<noteq> ''public'' \<longrightarrow> q \<notin> icon_path ` set ([] @ [192])
        \<longrightarrow> fs st2 q = fs empty_state q"
    by auto
  have r2: "fst (main ?F empty_state) = Inl OSError" "snd (main ?F empty_state) = st2"
    using g2 by (simp_all add: main_def sizes_def)
  have b1: "saved_paths (new_calls empty_state st2) = [''public/icon-192x192.png'']"
    using saves2 by (simp add: icon_path_192)
  have b2: "new_output empty_state st2 = []" using out2 by simp
  have "fs st2 (icon_path 512) = fs empty_state (icon_path 512)"
    using rest2 by (simp add: icon_path_not_public icon_path_eq_iff)
  then have b3: "fs st2 ''public/icon-512x512.png'' = None"
    by (simp add: sample_states icon_path_512)
  show ?thesis
    unfolding r1 r2
    by (intro conjI m s192 s512 a1 a2 a3 a4 t192 b1 b2 b3 refl)
qed

subsection \<open>A successful run\<close>

text \<open>
  Claim C6. A successful run over the sizes 192 and 512 saves exactly two files, first
  \<^verbatim>\<open>public/icon-192x192.png\<close> and then \<^verbatim>\<open>public/icon-512x512.png\<close>; each holds
  a PNG image whose pixel dimensions are its declared size; the progress lines appear in
  that order before the completion line; and apart from the directory \<^verbatim>\<open>public\<close> no
  other path of the file system is changed.
\<close>

theorem successful_run_outputs:
  assumes "main env st = (Inr (), st')"
  shows "fs st' ''public/icon-192x192.png'' = Some (PngFile (the_icon env 192))
     \<and> fs st' ''public/icon-512x512.png'' = Some (PngFile (the_icon env 512))
     \<and> img_size (the_icon env 192) = (192, 192) \<and> img_size (the_icon env 512) = (512, 512)
     \<and> saved_paths (new_calls st st') = [''public/icon-192x192.png'', ''public/icon-512x512.png'']
     \<and> new_output st st'
         = [''Created icon-192x192.png'', ''Created icon-512x512.png'', ''All icons generated!'']
     \<and> (\<forall>q. q \<notin> {''public'', ''public/icon-192x192.png'', ''public/icon-512x512.png''}
           \<longrightarrow> fs st' q = fs st q)
     \<and> fs st' ''public'' = Some Directory"
proof -
  from assms have g: "generate_icons env [192, 512] st = (Inr (), st')"
    by (simp add: main_def sizes_def)
  note r = generate_icons_Inr [OF g]
  have files: "fs st' ''public/icon-192x192.png'' = Some (PngFile (the_icon env 192))"
    "fs st' ''public/icon-512x512.png'' = Some (PngFile (the_icon env 512))"
    using r(3) by (simp_all add: icon_path_192 icon_path_512)
  have dims: "img_size (the_icon env 192) = (192, 192)" "img_size (the_icon env 512) = (512, 512)"
    by (simp_all add: the_icon_def img_size_icon_image)
  have "new_calls st st' = dir_calls st @ concat (map (size_calls env) [192, 512])"
    using r(1) by (simp add: new_calls_def)
  then have saves: "saved_paths (new_calls st st')
      = [''public/icon-192x192.png'', ''public/icon-512x512.png'']"
    using loop_calls_filters(1) [of env "[192, 512]"]
    by (simp add: saved_paths_append dir_calls_filters icon_path_192 icon_path_512)
  have out: "new_output st st'
      = [''Created icon-192x192.png'', ''Created icon-512x512.png'', ''All icons generated!'']"
    using r(2) by (simp add: new_output_def created_line_def icon_name_192 icon_name_512)
  have others: "\<forall>q. q \<notin> {''public'', ''public/icon-192x192.png'', ''public/icon-512x512.png''}
           \<longrightarrow> fs st' q = fs st q"
    using r(4) by (simp add: icon_path_192 icon_path_512)
  have "save_succeeds env (fs st') (icon_path 192)" using r(6) by simp
  then have pub: "fs st' ''public'' = Some Directory"
    by (simp add: save_succeeds_def dirname_icon_path)
  from files dims saves out others pub show ?thesis by blast
qed

theorem successful_run_outputs_witness:
  "fst (main (sample_env True (\<lambda>p. True)) empty_state) = Inr ()
   \<and> fs (snd (main (sample_env True (\<lambda>p. True)) empty_state)) ''public/icon-192x192.png''
       = Some (PngFile \<lparr>mode = ''RGB'', img_size = (192, 192), color = ''#3b82f6'',
            drawn = [Text (73, 68) ''B'' ''white'' (FreeTypeFont ''arial.ttf'' 76)]\<rparr>)
   \<and> saved_paths (new_calls empty_state (snd (main (sample_env True (\<lambda>p. True)) empty_state)))
       = [''public/icon-192x192.png'', ''public/icon-512x512.png'']
   \<and> new_output empty_state (snd (main (sample_env True (\<lambda>p. True)) empty_state))
       = [''Created icon-192x192.png'', ''Created icon-512x512.png'', ''All icons generated!'']
   \<and> ''README'' \<notin> {''public'', ''public/icon-192x192.png'', ''public/icon-512x512.png''}
   \<and> fs (snd (main (sample_env True (\<lambda>p. True)) empty_state)) ''README'' = None"
proof -
  let ?E = "sample_env True (\<lambda>p. True)"
  have "fst (generate_icons ?E sizes empty_state) = Inr ()"
    by (rule generate_icons_succeeds) (simp_all add: sample_states sample_env_simps)
  then have ok: "fst (main ?E empty_state) = Inr ()" by (simp add: main_def)
  then have "main ?E empty_state = (Inr (), snd (main ?E empty_state))"
    by (metis prod.collapse)
  from successful_run_outputs [OF this] ok show ?thesis
    by (simp add: the_icon_sample_192 sample_states)
qed

subsection \<open>Determinism\<close>

text \<open>
  Claim C8. For a fixed size and fixed font availability the generated file is fixed:
  two successful runs, from any two initial states and under any two environments that
  agree on which font requests succeed and on what the fonts measure, leave the same
  content in the file of every size. (Rasterising and encoding are functions of the
  image, which is all the script hands to them.)
\<close>

theorem output_depends_on_size_and_fonts:
  assumes "generate_icons env1 szs st1 = (Inr (), st1')"
    and "generate_icons env2 szs st2 = (Inr (), st2')"
    and "truetype_ok env1 = truetype_ok env2" and "getbbox env1 = getbbox env2"
  shows "\<forall>s\<in>set szs. fs st1' (icon_path s) = fs st2' (icon_path s)
           \<and> fs st1' (icon_path s) = Some (PngFile (the_icon env1 s))
           \<and> the_icon env1 s = the_icon env2 s"
proof
  fix s assume s: "s \<in> set szs"
  have same: "the_icon env1 s = the_icon env2 s"
    using assms(3,4)
    by (simp add: the_icon_def icon_image_def resolved_font_def textbbox_def)
  from generate_icons_Inr(3) [OF assms(1)] s
  have 1: "fs st1' (icon_path s) = Some (PngFile (the_icon env1 s))" by blast
  from generate_icons_Inr(3) [OF assms(2)] s
  have 2: "fs st2' (icon_path s) = Some (PngFile (the_icon env2 s))" by blast
  from 1 2 same show "fs st1' (icon_path s) = fs st2' (icon_path s)
           \<and> fs st1' (icon_path s) = Some (PngFile (the_icon env1 s))
           \<and> the_icon env1 s = the_icon env2 s" by simp
qed

theorem output_depends_on_size_and_fonts_witness:
  "fst (generate_icons (sample_env True (\<lambda>p. True)) sizes empty_state) = Inr ()
   \<and> fst (generate_icons (sample_env True (\<lambda>p. p \<noteq> ''public'')) sizes public_dir_state) = Inr ()
   \<and> truetype_ok (sample_env True (\<lambda>p. True)) = truetype_ok (sample_env True (\<lambda>p. p \<noteq> ''public''))
   \<and> getbbox (sample_env True (\<lambda>p. True)) = getbbox (sample_env True (\<lambda>p. p \<noteq> ''public''))
   \<and> fs (snd (generate_icons (sample_env True (\<lambda>p. True)) sizes empty_state)) (icon_path 192)
       = fs (snd (generate_icons (sample_env True (\<lambda>p. p \<noteq> ''public'')) sizes public_dir_state))
           (icon_path 192)
   \<and> fs (snd (generate_icons (sample_env True (\<lambda>p. True)) sizes empty_state)) (icon_path 512)
       = fs (snd (generate_icons (sample_env True (\<lambda>p. p \<noteq> ''public'')) sizes public_dir_state))
           (icon_path 512)"
proof -
  let ?E1 = "sample_env True (\<lambda>p. True)" and ?E2 = "sample_env True (\<lambda>p. p \<noteq> ''public'')"
  have ok1: "fst (generate_icons ?E1 sizes empty_state) = Inr ()"
    by (rule generate_icons_succeeds) (simp_all add: sample_states sample_env_simps)
  have ok2: "fst (generate_icons ?E2 sizes public_dir_state) = Inr ()"
    by (rule generate_icons_succeeds)
      (simp_all add: sample_states sample_env_simps icon_path_not_public public_not_icon_path)
  have r1: "generate_icons ?E1 sizes empty_state
      = (Inr (), snd (generate_icons ?E1 sizes empty_state))"
    using ok1 by (metis prod.collapse)
  have r2: "generate_icons ?E2 sizes public_dir_state
      = (Inr (), snd (generate_icons ?E2 sizes public_dir_state))"
    using ok2 by (metis prod.collapse)
  have f: "truetype_ok ?E1 = truetype_ok ?E2" "getbbox ?E1 = getbbox ?E2"
    by (simp_all add: sample_env_def)
  from output_depends_on_size_and_fonts [OF r1 r2 f] ok1 ok2 f show ?thesis
    by (simp add: sizes_def)
qed

subsection \<open>A non-directory named public\<close>

text \<open>
  Claim C10. The directory step only asks whether the path \<^verbatim>\<open>public\<close> exists. When
  it names a file, the step succeeds without creating anything, and the run fails at the
  first \<open>save\<close> with \<^verbatim>\<open>NotADirectoryError\<close>: the only calls made are the existence
  check, the font calls of the first size and its \<open>save\<close>; nothing is printed and the
  file system is unchanged.
\<close>

theorem public_not_a_directory:
  assumes "fs st ''public'' = Some f" and "f \<noteq> Directory"
  shows "ensure_public env st = (Inr (), log_call (PathExists ''public'') st)
     \<and> generate_icons env (sz # rest) st
         = (Inl NotADirectoryError, st\<lparr>calls := calls st @ PathExists ''public'' # size_calls env sz\<rparr>)
     \<and> main env st
         = (Inl NotADirectoryError, st\<lparr>calls := calls st @ PathExists ''public'' # size_calls env 192\<rparr>)"
proof -
  from assms(1) have e: "ensure_public env st
      = (Inr (), st\<lparr>calls := calls st @ [PathExists ''public'']\<rparr>)"
    by (simp add: ensure_public_present)
  have p: "process_size env s (st\<lparr>calls := calls st @ [PathExists ''public'']\<rparr>)
      = (Inl NotADirectoryError, st\<lparr>calls := calls st @ PathExists ''public'' # size_calls env s\<rparr>)"
    for s
    using process_size_not_dir [of "st\<lparr>calls := calls st @ [PathExists ''public'']\<rparr>" f env s] assms
    by simp
  have g: "generate_icons env (s # r) st
         = (Inl NotADirectoryError, st\<lparr>calls := calls st @ PathExists ''public'' # size_calls env s\<rparr>)"
    for s r
    by (simp add: generate_icons_def e p)
  show ?thesis
    using e g [of sz rest] g [of 192 "[512]"] by (simp add: main_def sizes_def log_call_def)
qed

theorem public_not_a_directory_witness:
  "fs public_is_file_state ''public'' = Some (OtherFile ''notes'')
   \<and> OtherFile ''notes'' \<noteq> Directory
   \<and> main (sample_env True (\<lambda>p. True)) public_is_file_state
       = (Inl NotADirectoryError,
          \<lparr>fs = [''public'' \<mapsto> OtherFile ''notes''], stdout = [],
           calls = [PathExists ''public'', Truetype ''arial.ttf'' 76,
                    Save ''public/icon-192x192.png'']\<rparr>)"
  using public_not_a_directory [of public_is_file_state "OtherFile ''notes''"
      "sample_env True (\<lambda>p. True)" 192 "[512]"]
  by (simp add: sample_states public_is_file_state_def size_calls_def font_calls_def
      font_size_192 sample_env_simps icon_path_192)

end
